theory Spec2Isabelle
  imports Main
begin

section \<open>typed-config: the configuration resolution pipeline of \<open>src/index.ts\<close>\<close>

text \<open>
  The library builds one configuration object out of four sources (defaults, a JSON file,
  a prefixed sub-tree of that file, the parsed command line), folds them with lodash's
  \<open>mergeWith\<close> under the customizer \<open>deepConfigMerge\<close>, hands the result to a schema and
  returns an accessor that walks dotted key paths.

  Scope of the model. Configuration data are plain JavaScript values: \<open>undefined\<close>,
  \<open>null\<close>, booleans, numbers, strings, arrays and plain objects. Numbers are carried around
  and compared but never computed with, so their payload is an integer here. An object is
  its list of own enumerable properties in enumeration order; a well-formed object names
  every key once (\<open>well_formed\<close> below). A key that is new to an object is entered at the
  end of the list; JavaScript enumerates keys that are array indices before the others,
  so for such keys the list of a merge result may be in another order than the
  enumeration. Nothing below depends on it: the customizer calls follow the order of the
  sources, and results are read by key.

  Reading a property (\<open>acc?.[k]\<close>, \<open>parsedCommandLine.help\<close>) finds the own property first
  and follows the prototype chain otherwise. What a value inherits belongs to the engine
  and its library, not to this program: it is the parameter \<open>inherited\<close> of the runtime,
  and the functions and objects of the built-in library that such a read can reach
  (\<open>{}.constructor\<close> is the function \<open>Object\<close>) are the values \<open>JNative\<close>. The merge
  works on own properties: lodash walks the enumerable keys of a source, of which plain
  data and built-in values inherit none, and stores into a fresh object.
\<close>

subsection \<open>Values\<close>

text \<open>\<open>JNative callable name\<close> is a function (\<open>callable\<close>) or another object of the
  built-in library, known by its name only.\<close>

datatype jsval =
    JUndefined
  | JNull
  | JBool bool
  | JNum int
  | JStr string
  | JArr "jsval list"
  | JObj "(string \<times> jsval) list"
  | JNative bool string

type_synonym props = "(string \<times> jsval) list"

text \<open>What the code throws: \<open>new Error(message)\<close> at its two \<open>throw\<close> statements, the
  \<open>SyntaxError\<close> of \<open>JSON.parse\<close>, and whatever the schema raises.\<close>

datatype error = Error string | SyntaxError | SchemaError string

fun js_typeof :: "jsval \<Rightarrow> string" where
  "js_typeof JUndefined = ''undefined''"
| "js_typeof JNull = ''object''"
| "js_typeof (JBool b) = ''boolean''"
| "js_typeof (JNum n) = ''number''"
| "js_typeof (JStr s) = ''string''"
| "js_typeof (JArr xs) = ''object''"
| "js_typeof (JObj ps) = ''object''"
| "js_typeof (JNative callable name) = (if callable then ''function'' else ''object'')"

text \<open>Truthiness, as \<open>||\<close>, \<open>&&\<close>, \<open>!!\<close> and \<open>if (source)\<close> test it.\<close>

fun truthy :: "jsval \<Rightarrow> bool" where
  "truthy JUndefined = False"
| "truthy JNull = False"
| "truthy (JBool b) = b"
| "truthy (JNum n) = (n \<noteq> 0)"
| "truthy (JStr s) = (s \<noteq> [])"
| "truthy (JArr xs) = True"
| "truthy (JObj ps) = True"
| "truthy (JNative callable name) = True"

definition js_or :: "jsval \<Rightarrow> jsval \<Rightarrow> jsval" where
  "js_or a b = (if truthy a then a else b)"

text \<open>\<open>a ?? b\<close>.\<close>

definition nullish :: "jsval \<Rightarrow> jsval \<Rightarrow> jsval" where
  "nullish a b = (if a = JUndefined \<or> a = JNull then b else a)"

fun isArray :: "jsval \<Rightarrow> bool" where
  "isArray (JArr xs) = True"
| "isArray v = False"

fun elements :: "jsval \<Rightarrow> jsval list" where
  "elements (JArr xs) = xs"
| "elements v = []"

text \<open>The decimal name of an array index, \<open>String(i)\<close>.\<close>

definition digit_char :: "nat \<Rightarrow> char" where
  "digit_char d = char_of (48 + d)"

fun string_of_nat :: "nat \<Rightarrow> string" where
  "string_of_nat n =
     (if n < 10 then [digit_char n] else string_of_nat (n div 10) @ [digit_char (n mod 10)])"

declare string_of_nat.simps [simp del]

definition index_keys :: "nat \<Rightarrow> string list" where
  "index_keys n = map string_of_nat [0..<n]"

text \<open>The own enumerable string-keyed properties of a value in enumeration order, which is
  what lodash's \<open>keysIn\<close> walks for plain data: the entries of an object, the indexed
  elements of an array, the indexed characters of a string, nothing for any other value.\<close>

fun keysIn :: "jsval \<Rightarrow> props" where
  "keysIn (JObj ps) = ps"
| "keysIn (JArr xs) = zip (index_keys (length xs)) xs"
| "keysIn (JStr s) = zip (index_keys (length s)) (map (\<lambda>c. JStr [c]) s)"
| "keysIn v = []"

text \<open>\<open>object[key]\<close> on a property list; an absent key reads as \<open>undefined\<close>.\<close>

definition safeGet :: "props \<Rightarrow> string \<Rightarrow> jsval" where
  "safeGet object key = (case map_of object key of None \<Rightarrow> JUndefined | Some v \<Rightarrow> v)"

text \<open>The own property of a value under a name, if it has one. Arrays and strings own
  their indices and \<open>length\<close>; the properties of a built-in value are all left to
  \<open>inherited\<close>.\<close>

fun own_property :: "jsval \<Rightarrow> string \<Rightarrow> jsval option" where
  "own_property (JObj ps) k = map_of ps k"
| "own_property (JArr xs) k =
     (if k = ''length'' then Some (JNum (int (length xs))) else map_of (keysIn (JArr xs)) k)"
| "own_property (JStr s) k =
     (if k = ''length'' then Some (JNum (int (length s))) else map_of (keysIn (JStr s)) k)"
| "own_property v k = None"

text \<open>\<open>acc?.[k]\<close>: \<open>undefined\<close> on \<open>undefined\<close> and \<open>null\<close> (the optional chain); otherwise
  the own property, and where there is none what the prototype chain gives.\<close>

definition getProp :: "(jsval \<Rightarrow> string \<Rightarrow> jsval) \<Rightarrow> jsval \<Rightarrow> string \<Rightarrow> jsval" where
  "getProp inh v k =
     (if v = JUndefined \<or> v = JNull then JUndefined
      else (case own_property v k of Some x \<Rightarrow> x | None \<Rightarrow> inh v k))"

text \<open>\<open>String.prototype.split('.')\<close>: the pieces between the separators; the empty
  string gives one empty piece.\<close>

fun split_on :: "char \<Rightarrow> string \<Rightarrow> string list" where
  "split_on sep [] = [[]]"
| "split_on sep (c # cs) =
     (if c = sep then [] # split_on sep cs
      else (case split_on sep cs of
              [] \<Rightarrow> [[c]]
            | seg # segs \<Rightarrow> (c # seg) # segs))"

definition split_dot :: "string \<Rightarrow> string list" where
  "split_dot s = split_on (CHR ''.'') s"

text \<open>\<open>segments.reduce((acc, k) => acc?.[k], start)\<close>.\<close>

definition walk :: "(jsval \<Rightarrow> string \<Rightarrow> jsval) \<Rightarrow> jsval \<Rightarrow> string list \<Rightarrow> jsval" where
  "walk inh start segments = foldl (getProp inh) start segments"

subsection \<open>lodash's \<open>mergeWith\<close>\<close>

text \<open>
  \<open>mergeWith(object, ...sources, customizer)\<close> visits the sources from left to right and
  skips a falsy one. For each key of a source it calls
  \<open>customizer(object[key], source[key], key)\<close> and stores the outcome under that key
  (\<open>assignMergeValue\<close>); an exception of the customizer ends the whole merge. When the
  customizer answers \<open>undefined\<close>, lodash takes the source value instead; for an object
  source value it would merge by itself, which never happens under \<open>deepConfigMerge\<close>
  (lemma \<open>deepConfigMerge_Undefined\<close> below: it answers \<open>undefined\<close> only for an
  \<open>undefined\<close> source value).

  A source names each of its keys once, so every customizer call of one pass reads the
  object as it stood when the pass began; \<open>baseMerge\<close> is written that way, and
  \<open>baseMerge_loop\<close> below is the loop itself, proved equal on such sources.

  lodash also tests whether it is being called as an iteratee (its third source would
  have to hold the first one under the second as a key). Neither call of this program
  passes such arguments: the third source of line 156 is cut out of the second, and in
  line 99 the third argument is the customizer.
\<close>

fun baseAssignValue :: "props \<Rightarrow> string \<Rightarrow> jsval \<Rightarrow> props" where
  "baseAssignValue [] key v = [(key, v)]"
| "baseAssignValue (p # ps) key v =
     (if fst p = key then (key, v) # ps else p # baseAssignValue ps key v)"

definition assignMergeValue :: "props \<Rightarrow> string \<Rightarrow> jsval \<Rightarrow> props" where
  "assignMergeValue object key v =
     (if (v \<noteq> JUndefined \<and> safeGet object key \<noteq> v)
         \<or> (v = JUndefined \<and> key \<notin> set (map fst object))
      then baseAssignValue object key v else object)"

text \<open>The customizer's answers for the keys of one source, up to the first exception.\<close>

fun first_error ::
  "(string \<times> jsval \<times> (error + jsval)) list \<Rightarrow> error + (string \<times> jsval \<times> jsval) list" where
  "first_error [] = Inr []"
| "first_error ((k, s, r) # rs) =
     (case r of
        Inl e \<Rightarrow> Inl e
      | Inr v \<Rightarrow> (case first_error rs of Inl e \<Rightarrow> Inl e | Inr vs \<Rightarrow> Inr ((k, s, v) # vs)))"

definition assign_all :: "(string \<times> jsval \<times> jsval) list \<Rightarrow> props \<Rightarrow> props" where
  "assign_all news object =
     fold (\<lambda>(key, srcValue, newValue) obj.
             assignMergeValue obj key (if newValue = JUndefined then srcValue else newValue))
       news object"

definition baseMerge ::
  "(jsval \<Rightarrow> jsval \<Rightarrow> string \<Rightarrow> error + jsval) \<Rightarrow> props \<Rightarrow> jsval \<Rightarrow> error + props" where
  "baseMerge customizer object source =
     (case first_error
        (map (\<lambda>(key, srcValue). (key, srcValue, customizer (safeGet object key) srcValue key))
           (keysIn source)) of
        Inl e \<Rightarrow> Inl e
      | Inr news \<Rightarrow> Inr (assign_all news object))"

fun mergeWith ::
  "(jsval \<Rightarrow> jsval \<Rightarrow> string \<Rightarrow> error + jsval) \<Rightarrow> props \<Rightarrow> jsval list \<Rightarrow> error + props" where
  "mergeWith customizer object [] = Inr object"
| "mergeWith customizer object (source # sources) =
     (if truthy source then
        (case baseMerge customizer object source of
           Inl e \<Rightarrow> Inl e
         | Inr object' \<Rightarrow> mergeWith customizer object' sources)
      else mergeWith customizer object sources)"

lemma baseMerge_cong [fundef_cong]:
  assumes "object = object'" and "source = source'"
    and "\<And>key srcValue. (key, srcValue) \<in> set (keysIn source') \<Longrightarrow>
           f (safeGet object' key) srcValue key = g (safeGet object' key) srcValue key"
  shows "baseMerge f object source = baseMerge g object' source'"
proof -
  have "map (\<lambda>(key, srcValue). (key, srcValue, f (safeGet object' key) srcValue key))
          (keysIn source')
      = map (\<lambda>(key, srcValue). (key, srcValue, g (safeGet object' key) srcValue key))
          (keysIn source')"
    using assms(3) by (auto intro!: map_cong)
  then show ?thesis
    unfolding baseMerge_def assms(1) assms(2) by (rule arg_cong)
qed

subsection \<open>The customizer \<open>deepConfigMerge\<close> (index.ts, lines 87-103)\<close>

text \<open>\<open>objValue.concat(...args)\<close>: an argument that is an array contributes its elements,
  any other argument contributes itself.\<close>

fun spreadable :: "jsval \<Rightarrow> jsval list" where
  "spreadable (JArr ys) = ys"
| "spreadable v = [v]"

definition js_concat :: "jsval list \<Rightarrow> jsval list \<Rightarrow> jsval list" where
  "js_concat xs args = xs @ concat (map spreadable args)"

definition merge_error :: "string \<Rightarrow> jsval \<Rightarrow> error" where
  "merge_error key srcValue =
     Error (''Cannot merge '' @ key @ '' into an object from type '' @ js_typeof srcValue)"

lemma safeGet_Nil: "safeGet [] key = JUndefined"
  by (simp add: safeGet_def)

lemma size_member_Arr: "v \<in> set xs \<Longrightarrow> size v < size (JArr xs)"
  by (induction xs) auto

lemma size_member_Obj: "(k, v) \<in> set ps \<Longrightarrow> size v < size (JObj ps)"
  by (induction ps) auto

lemma size_keysIn:
  "(k, v) \<in> set (keysIn s) \<Longrightarrow> js_typeof s = ''object'' \<Longrightarrow> size v < size s"
proof (cases s)
  case (JArr xs)
  assume "(k, v) \<in> set (keysIn s)"
  with JArr have "v \<in> set xs" by (auto dest: set_zip_rightD)
  with JArr show ?thesis using size_member_Arr by blast
next
  case (JObj ps)
  assume "(k, v) \<in> set (keysIn s)"
  with JObj show ?thesis using size_member_Obj by auto
qed auto

text \<open>
  The last branch but one is \<open>mergeWith({}, objValue, srcValue, deepConfigMerge)\<close>, written
  out as its two passes: \<open>objValue\<close> is a non-null object and always visited, \<open>srcValue\<close>
  is visited unless it is falsy. Lemma \<open>deepConfigMerge_mergeWith\<close> states the branch with
  \<open>mergeWith\<close> itself.
\<close>

function deepConfigMerge :: "jsval \<Rightarrow> jsval \<Rightarrow> string \<Rightarrow> error + jsval" where
  "deepConfigMerge objValue srcValue key =
     (if objValue = JUndefined then Inr srcValue
      else if srcValue = JUndefined then Inr objValue
      else if isArray objValue then
        Inr (JArr (js_concat (elements objValue)
                    (if isArray srcValue then elements srcValue else [srcValue])))
      else if js_typeof objValue = ''object'' \<and> objValue \<noteq> JNull then
        (if js_typeof srcValue \<noteq> ''object'' then Inl (merge_error key srcValue)
         else
           (case baseMerge deepConfigMerge [] objValue of
              Inl e \<Rightarrow> Inl e
            | Inr object \<Rightarrow>
                if truthy srcValue then
                  (case baseMerge deepConfigMerge object srcValue of
                     Inl e \<Rightarrow> Inl e
                   | Inr object' \<Rightarrow> Inr (JObj object'))
                else Inr (JObj object)))
      else Inr srcValue)"
  by pat_completeness auto
termination
proof (relation "measure (\<lambda>(objValue, srcValue, key).
                   if objValue = JUndefined then 0 else Suc (size srcValue))")
qed (simp_all add: safeGet_Nil size_keysIn)

declare deepConfigMerge.simps [simp del]

subsection \<open>\<open>getConfigGetter\<close> (index.ts, lines 112-172)\<close>

text \<open>
  The caller's options. \<open>prefix\<close> is \<open>string | null\<close> (\<open>None\<close> is \<open>null\<close>, also the
  default); \<open>jsonFile\<close> is \<open>boolean | string\<close> and \<open>commandLine\<close> is \<open>boolean\<close>, both
  \<open>true\<close> when the caller leaves them out; \<open>defaultsFn\<close> is represented by the value the
  function returns when it is invoked, \<open>None\<close> when no function is given.
\<close>

record ConfigOptions =
  prefix :: "string option"
  jsonFile :: "jsval option"
  commandLine :: "bool option"
  defaultsFn :: "jsval option"

text \<open>
  What the function reads from its surroundings: the argument vector, the environment
  variable, the files that exist with their contents, the two library functions whose
  results it takes as they are, the command-line tokenizer \<open>yargs-parser\<close> and
  \<open>JSON.parse\<close> (\<open>None\<close> when it throws its \<open>SyntaxError\<close>), and the prototype chains
  of the engine: \<open>inherited rt v k\<close> is the property \<open>k\<close> that the value \<open>v\<close> has without
  owning it, \<open>undefined\<close> when there is none.
\<close>

record runtime =
  argv :: "string list"
  CONFIG_JSON_FILE :: "string option"
  files :: "string \<Rightarrow> string option"
  yargsParser :: "string list \<Rightarrow> jsval"
  JSON_parse :: "string \<Rightarrow> jsval option"
  inherited :: "jsval \<Rightarrow> string \<Rightarrow> jsval"

datatype fs_call = ExistsSync jsval | ReadFileSync jsval

text \<open>The outcome of a call that does not throw: the process has exited with a status
  (\<open>--help\<close>, \<open>--print-config\<close>), or the accessor over the validated data is returned.
  Console output is not modelled.\<close>

datatype resolution = Exited nat | Getter jsval

definition options_jsonFile :: "ConfigOptions \<Rightarrow> jsval" where
  "options_jsonFile options = (case jsonFile options of None \<Rightarrow> JBool True | Some v \<Rightarrow> v)"

definition options_commandLine :: "ConfigOptions \<Rightarrow> bool" where
  "options_commandLine options = (case commandLine options of None \<Rightarrow> True | Some b \<Rightarrow> b)"

text \<open>Lines 122-128.\<close>

definition parsedCommandLine :: "runtime \<Rightarrow> ConfigOptions \<Rightarrow> jsval" where
  "parsedCommandLine rt options =
     (if options_commandLine options then yargsParser rt (drop 2 (argv rt)) else JObj [])"

definition env_value :: "string option \<Rightarrow> jsval" where
  "env_value e = (case e of None \<Rightarrow> JUndefined | Some s \<Rightarrow> JStr s)"

text \<open>Lines 144-147.\<close>

definition configJsonFile :: "runtime \<Rightarrow> ConfigOptions \<Rightarrow> jsval" where
  "configJsonFile rt options =
     js_or (getProp (inherited rt) (parsedCommandLine rt options) ''configJsonFile'')
       (js_or (env_value (CONFIG_JSON_FILE rt))
          (js_or (if js_typeof (options_jsonFile options) = ''string''
                  then options_jsonFile options else JNull)
             (JStr ''./config.json'')))"

text \<open>\<open>fs.existsSync\<close> answers \<open>false\<close> for anything that is not a path.\<close>

definition existsSync :: "runtime \<Rightarrow> jsval \<Rightarrow> bool" where
  "existsSync rt path = (case path of JStr p \<Rightarrow> files rt p \<noteq> None | _ \<Rightarrow> False)"

text \<open>\<open>fs.readFileSync\<close> throws when there is no such file.\<close>

definition readFileSync :: "runtime \<Rightarrow> jsval \<Rightarrow> error + string" where
  "readFileSync rt path =
     (case path of
        JStr p \<Rightarrow> (case files rt p of None \<Rightarrow> Inl (Error ''ENOENT'') | Some content \<Rightarrow> Inr content)
      | _ \<Rightarrow> Inl (Error ''ERR_INVALID_ARG_TYPE''))"

text \<open>Lines 149-151, with the file-system calls made on the way. \<open>&&\<close> does not evaluate
  its right operand when the left one is falsy.\<close>

definition rawData :: "runtime \<Rightarrow> ConfigOptions \<Rightarrow> fs_call list \<times> (error + jsval)" where
  "rawData rt options =
     (let path = configJsonFile rt options in
      if truthy (options_jsonFile options) then
        (if existsSync rt path then
           ([ExistsSync path, ReadFileSync path],
            (case readFileSync rt path of
               Inl e \<Rightarrow> Inl e
             | Inr content \<Rightarrow>
                 (case JSON_parse rt content of
                    None \<Rightarrow> Inl SyntaxError
                  | Some v \<Rightarrow> Inr v)))
         else ([ExistsSync path], Inr (JObj [])))
      else ([], Inr (JObj [])))"

text \<open>Line 154.\<close>

definition defaults :: "ConfigOptions \<Rightarrow> jsval" where
  "defaults options =
     nullish (case defaultsFn options of None \<Rightarrow> JUndefined | Some v \<Rightarrow> v) (JObj [])"

text \<open>Line 155: \<open>options.prefix && `${options.prefix}`.split('.').reduce(...)\<close>. A
  \<open>null\<close> or empty prefix is falsy and is the value of the conjunction itself.\<close>

definition prefixedRaw :: "runtime \<Rightarrow> ConfigOptions \<Rightarrow> jsval \<Rightarrow> jsval" where
  "prefixedRaw rt options raw =
     (case prefix options of
        None \<Rightarrow> JNull
      | Some p \<Rightarrow> if p = [] then JStr [] else walk (inherited rt) raw (split_dot p))"

text \<open>Line 156: the four sources in the order in which they are folded.\<close>

definition sources :: "runtime \<Rightarrow> ConfigOptions \<Rightarrow> jsval \<Rightarrow> jsval list" where
  "sources rt options raw =
     [nullish (defaults options) (JObj []), raw,
      nullish (prefixedRaw rt options raw) (JObj []), parsedCommandLine rt options]"

definition merged :: "runtime \<Rightarrow> ConfigOptions \<Rightarrow> jsval \<Rightarrow> error + jsval" where
  "merged rt options raw =
     (case mergeWith deepConfigMerge [] (sources rt options raw) of
        Inl e \<Rightarrow> Inl e
      | Inr object \<Rightarrow> Inr (JObj object))"

text \<open>The whole function; \<open>schema_parse\<close> is \<open>schema.parse\<close> of the caller's schema.\<close>

definition getConfigGetter ::
  "runtime \<Rightarrow> (jsval \<Rightarrow> error + jsval) \<Rightarrow> ConfigOptions \<Rightarrow> error + resolution" where
  "getConfigGetter rt schema_parse options =
     (if truthy (getProp (inherited rt) (parsedCommandLine rt options) ''help'')
      then Inr (Exited 0)
      else
        (case snd (rawData rt options) of
           Inl e \<Rightarrow> Inl e
         | Inr raw \<Rightarrow>
             (case merged rt options raw of
                Inl e \<Rightarrow> Inl e
              | Inr candidate \<Rightarrow>
                  (case schema_parse candidate of
                     Inl e \<Rightarrow> Inl e
                   | Inr data \<Rightarrow>
                       if truthy (getProp (inherited rt) (parsedCommandLine rt options)
                                    ''printConfig'')
                       then Inr (Exited 0)
                       else Inr (Getter data)))))"

text \<open>Lines 164-171, the accessor over the validated \<open>data\<close>; it runs in the runtime of
  the call that made it. A parameter the caller leaves out is bound to \<open>undefined\<close>;
  \<open>call_getConfig\<close> is the call with and without the second argument.\<close>

definition undefined_key_error :: "string \<Rightarrow> error" where
  "undefined_key_error key =
     Error (''The config variable '' @ [CHR 0x27] @ key @ [CHR 0x27] @ '' is not defined.'')"

definition getConfig :: "runtime \<Rightarrow> jsval \<Rightarrow> string \<Rightarrow> jsval \<Rightarrow> error + jsval" where
  "getConfig rt data key defaultValue =
     (let v = walk (inherited rt) data (split_dot key) in
      if v = JUndefined then
        (if defaultValue = JUndefined then Inl (undefined_key_error key)
         else Inr defaultValue)
      else Inr v)"

definition call_getConfig ::
  "runtime \<Rightarrow> jsval \<Rightarrow> string \<Rightarrow> jsval option \<Rightarrow> error + jsval" where
  "call_getConfig rt data key argument =
     getConfig rt data key (case argument of None \<Rightarrow> JUndefined | Some v \<Rightarrow> v)"

subsection \<open>Notions used in the statements\<close>

text \<open>The value lodash stores for a key: the customizer's answer, or the source value when
  the answer is \<open>undefined\<close>.\<close>

definition settled :: "jsval \<Rightarrow> jsval \<Rightarrow> jsval" where
  "settled srcValue newValue = (if newValue = JUndefined then srcValue else newValue)"

text \<open>The customizer calls of one pass over the properties of a source.\<close>

definition calls :: "(jsval \<Rightarrow> jsval \<Rightarrow> string \<Rightarrow> error + jsval) \<Rightarrow> props \<Rightarrow> props
    \<Rightarrow> (string \<times> jsval \<times> (error + jsval)) list" where
  "calls c obj ps = map (\<lambda>(key, srcValue). (key, srcValue, c (safeGet obj key) srcValue key)) ps"

text \<open>lodash's loop as it runs: one key after the other, each call reading the object as
  the previous assignments left it. On a source that names each key once it computes what
  \<open>baseMerge\<close> computes (lemma \<open>baseMerge_is_loop\<close>).\<close>

fun baseMerge_loop ::
  "(jsval \<Rightarrow> jsval \<Rightarrow> string \<Rightarrow> error + jsval) \<Rightarrow> props \<Rightarrow> props \<Rightarrow> error + props" where
  "baseMerge_loop customizer object [] = Inr object"
| "baseMerge_loop customizer object ((key, srcValue) # rest) =
     (case customizer (safeGet object key) srcValue key of
        Inl e \<Rightarrow> Inl e
      | Inr newValue \<Rightarrow>
          baseMerge_loop customizer
            (assignMergeValue object key (if newValue = JUndefined then srcValue else newValue))
            rest)"

text \<open>The values of the merge engine's last rule: neither arrays nor objects.\<close>

fun scalar :: "jsval \<Rightarrow> bool" where
  "scalar JNull = True"
| "scalar (JBool b) = True"
| "scalar (JNum n) = True"
| "scalar (JStr s) = True"
| "scalar v = False"

text \<open>What the sources hold under one key, merged from left to right.\<close>

fun merge_values :: "string \<Rightarrow> jsval \<Rightarrow> jsval list \<Rightarrow> error + jsval" where
  "merge_values k x [] = Inr x"
| "merge_values k x (v # vs) =
     (case deepConfigMerge x v k of Inl e \<Rightarrow> Inl e | Inr y \<Rightarrow> merge_values k y vs)"

text \<open>The last value of a list that is not \<open>undefined\<close>.\<close>

fun last_defined :: "jsval list \<Rightarrow> jsval" where
  "last_defined [] = JUndefined"
| "last_defined (v # vs) = (if last_defined vs = JUndefined then v else last_defined vs)"


text \<open>\<open>Array.prototype.join\<close>, the inverse of \<open>split\<close>.\<close>

fun join_on :: "char \<Rightarrow> string list \<Rightarrow> string" where
  "join_on sep [] = []"
| "join_on sep [x] = x"
| "join_on sep (x # y # ys) = x @ sep # join_on sep (y # ys)"

text \<open>Reading a decimal name back, to tell the index names apart.\<close>

definition digit_value :: "char \<Rightarrow> nat" where
  "digit_value c = of_char c - 48"

definition nat_of_string :: "string \<Rightarrow> nat" where
  "nat_of_string s = foldl (\<lambda>n c. 10 * n + digit_value c) 0 s"

text \<open>A well-formed source names each of its keys once. Arrays and strings always do.\<close>

definition well_formed :: "jsval \<Rightarrow> bool" where
  "well_formed s = (case s of JObj ps \<Rightarrow> distinct (map fst ps) | _ \<Rightarrow> True)"

subsection \<open>Example runs\<close>

text \<open>
  The prototype chains of the example runs, as far as the runs read them: every value
  inherits \<open>constructor\<close> (the function that made it) and the methods of
  \<open>Object.prototype\<close>, each a function of that name, and a function has its \<open>name\<close>.
  Left out are \<open>__proto__\<close> and the methods that arrays, strings, numbers, booleans and
  functions have from prototypes of their own; no example run reads one of them. The
  general statements hold for every runtime, whatever it inherits.
\<close>

definition object_methods :: "string list" where
  "object_methods =
     [''hasOwnProperty'', ''isPrototypeOf'', ''propertyIsEnumerable'', ''toLocaleString'',
      ''toString'', ''valueOf'', ''__defineGetter__'', ''__defineSetter__'',
      ''__lookupGetter__'', ''__lookupSetter__'']"

fun constructor_of :: "jsval \<Rightarrow> jsval" where
  "constructor_of (JObj ps) = JNative True ''Object''"
| "constructor_of (JArr xs) = JNative True ''Array''"
| "constructor_of (JStr s) = JNative True ''String''"
| "constructor_of (JNum n) = JNative True ''Number''"
| "constructor_of (JBool b) = JNative True ''Boolean''"
| "constructor_of (JNative callable name) =
     JNative True (if callable then ''Function'' else ''Object'')"
| "constructor_of v = JUndefined"

definition example_inherited :: "jsval \<Rightarrow> string \<Rightarrow> jsval" where
  "example_inherited v k =
     (if k = ''constructor'' then constructor_of v
      else if k \<in> set object_methods then JNative True k
      else (case v of
              JNative callable name \<Rightarrow>
                if callable \<and> k = ''name'' then JStr name else JUndefined
            | _ \<Rightarrow> JUndefined))"

text \<open>The precedence example: defaults \<open>{a: 1, b: 1}\<close>, a file \<open>./config.json\<close> that
  parses to \<open>{a: 2}\<close>, and the command line \<open>--a 3\<close>, for which the tokenizer answers
  \<open>{_: [], a: 3}\<close>.\<close>

definition example_json :: jsval where
  "example_json = JObj [(''a'', JNum 2)]"

definition example_runtime :: runtime where
  "example_runtime =
     \<lparr>argv = [''node'', ''app.js'', ''--a'', ''3''],
      CONFIG_JSON_FILE = None,
      files = (\<lambda>p. if p = ''./config.json'' then Some ''{ a: 2 }'' else None),
      yargsParser = (\<lambda>args. if args = [''--a'', ''3'']
                              then JObj [(''_'', JArr []), (''a'', JNum 3)]
                              else JObj [(''_'', JArr (map JStr args))]),
      JSON_parse = (\<lambda>content. if content = ''{ a: 2 }'' then Some example_json else None),
      inherited = example_inherited\<rparr>"

definition example_options :: ConfigOptions where
  "example_options =
     \<lparr>prefix = None, jsonFile = None, commandLine = None,
      defaultsFn = Some (JObj [(''a'', JNum 1), (''b'', JNum 1)])\<rparr>"

text \<open>The prefix example: the file parses to \<open>{apps: {x: {v: 1}}, v: 2}\<close>, there are no
  defaults and no command-line arguments, so the tokenizer answers \<open>{_: []}\<close>.\<close>

definition shared_json :: jsval where
  "shared_json =
     JObj [(''apps'', JObj [(''x'', JObj [(''v'', JNum 1)])]), (''v'', JNum 2)]"

definition shared_runtime :: runtime where
  "shared_runtime =
     \<lparr>argv = [''node'', ''app.js''],
      CONFIG_JSON_FILE = None,
      files = (\<lambda>p. if p = ''./config.json'' then Some ''shared'' else None),
      yargsParser = (\<lambda>args. JObj [(''_'', JArr (map JStr args))]),
      JSON_parse = (\<lambda>content. if content = ''shared'' then Some shared_json else None),
      inherited = example_inherited\<rparr>"

definition prefix_options :: "string \<Rightarrow> ConfigOptions" where
  "prefix_options p =
     \<lparr>prefix = Some p, jsonFile = None, commandLine = None, defaultsFn = None\<rparr>"


text \<open>Four files that exist; \<open>opt.json\<close> does not parse. The tokenizer's answer and the
  environment variable are parameters.\<close>

definition located_runtime :: "jsval \<Rightarrow> string option \<Rightarrow> runtime" where
  "located_runtime cl env =
     \<lparr>argv = [''node'', ''app.js''],
      CONFIG_JSON_FILE = env,
      files = (\<lambda>p. if p \<in> set [''cli.json'', ''env.json'', ''opt.json'', ''./config.json'']
                     then Some p else None),
      yargsParser = (\<lambda>args. cl),
      JSON_parse = (\<lambda>content. if content = ''opt.json'' then None
                               else Some (JObj [(''from'', JStr content)])),
      inherited = example_inherited\<rparr>"

definition file_options :: "jsval option \<Rightarrow> ConfigOptions" where
  "file_options j = \<lparr>prefix = None, jsonFile = j, commandLine = None, defaultsFn = None\<rparr>"

text \<open>A validated configuration for the accessor.\<close>

definition validated_example :: jsval where
  "validated_example =
     JObj [(''someValue'', JStr ''d''),
           (''someObject'', JObj [(''nested'', JBool False), (''limit'', JNull)])]"

text \<open>The command line \<open>--config-json-file c.json extra\<close>, for which the tokenizer
  answers with the positional under \<open>_\<close> and the flag under both of its spellings.\<close>

definition cli_output :: jsval where
  "cli_output =
     JObj [(''_'', JArr [JStr ''extra'']), (''config-json-file'', JStr ''c.json''),
           (''configJsonFile'', JStr ''c.json'')]"

definition cli_runtime :: runtime where
  "cli_runtime =
     \<lparr>argv = [''node'', ''app.js'', ''--config-json-file'', ''c.json'', ''extra''],
      CONFIG_JSON_FILE = None,
      files = (\<lambda>p. None),
      yargsParser = (\<lambda>args. if args = [''--config-json-file'', ''c.json'', ''extra'']
                              then cli_output else JObj [(''_'', JArr [])]),
      JSON_parse = (\<lambda>content. None),
      inherited = example_inherited\<rparr>"

definition cli_options :: ConfigOptions where
  "cli_options =
     \<lparr>prefix = None, jsonFile = None, commandLine = Some True,
      defaultsFn = Some (JObj [(''port'', JNum 80)])\<rparr>"

definition cli_candidate :: jsval where
  "cli_candidate =
     JObj [(''port'', JNum 80), (''_'', JArr [JStr ''extra'']),
           (''config-json-file'', JStr ''c.json''), (''configJsonFile'', JStr ''c.json'')]"

text \<open>The precedence example without command-line arguments.\<close>

definition example_runtime_plain :: runtime where
  "example_runtime_plain = example_runtime\<lparr>argv := [''node'', ''app.js'']\<rparr>"


text \<open>The tokenizer's answer to \<open>--help\<close>.\<close>

definition help_output :: jsval where
  "help_output = JObj [(''_'', JArr []), (''help'', JBool True)]"

section \<open>Properties of the merge engine\<close>

subsection \<open>Assignments\<close>

lemma safeGet_baseAssignValue:
  "safeGet (baseAssignValue obj k v) k' = (if k' = k then v else safeGet obj k')"
  by (induction obj) (auto simp: safeGet_def)

lemma keys_baseAssignValue:
  "fst ` set (baseAssignValue obj k v) = insert k (fst ` set obj)"
  by (induction obj) auto

lemma distinct_baseAssignValue:
  "distinct (map fst obj) \<Longrightarrow> distinct (map fst (baseAssignValue obj k v))"
  by (induction obj) (auto simp: keys_baseAssignValue)

lemma safeGet_absent: "k \<notin> fst ` set obj \<Longrightarrow> safeGet obj k = JUndefined"
  by (simp add: safeGet_def map_of_eq_None_iff [THEN iffD2])

lemma safeGet_defined_key: "safeGet obj k \<noteq> JUndefined \<Longrightarrow> k \<in> fst ` set obj"
  using safeGet_absent by blast

lemma safeGet_assignMergeValue:
  "safeGet (assignMergeValue obj k v) k' =
     (if k' = k \<and> v \<noteq> JUndefined then v else safeGet obj k')"
  by (auto simp: assignMergeValue_def safeGet_baseAssignValue safeGet_absent)

lemma keys_assignMergeValue:
  "fst ` set (assignMergeValue obj k v) = insert k (fst ` set obj)"
proof (cases "v \<noteq> JUndefined \<and> safeGet obj k = v")
  case True
  then have "k \<in> fst ` set obj" using safeGet_defined_key by metis
  with True show ?thesis by (auto simp: assignMergeValue_def)
next
  case False
  then show ?thesis by (auto simp: assignMergeValue_def keys_baseAssignValue)
qed

lemma distinct_assignMergeValue:
  "distinct (map fst obj) \<Longrightarrow> distinct (map fst (assignMergeValue obj k v))"
  by (simp add: assignMergeValue_def distinct_baseAssignValue)


lemma assign_all_Nil: "assign_all [] obj = obj"
  by (simp add: assign_all_def)

lemma assign_all_Cons:
  "assign_all ((k, s, nv) # news) obj = assign_all news (assignMergeValue obj k (settled s nv))"
  by (simp add: assign_all_def settled_def)

lemma safeGet_assign_all_other:
  "k \<notin> fst ` set news \<Longrightarrow> safeGet (assign_all news obj) k = safeGet obj k"
proof (induction news arbitrary: obj)
  case Nil
  then show ?case by (simp add: assign_all_Nil)
next
  case (Cons a news)
  obtain k' s nv where a: "a = (k', s, nv)" by (cases a)
  from Cons.prems a have "k \<noteq> k'" and "k \<notin> fst ` set news" by auto
  then show ?case using Cons.IH [of "assignMergeValue obj k' (settled s nv)"]
    by (simp add: a assign_all_Cons safeGet_assignMergeValue)
qed

lemma safeGet_assign_all:
  "distinct (map fst news) \<Longrightarrow> (k, s, nv) \<in> set news \<Longrightarrow>
   safeGet (assign_all news obj) k =
     (if settled s nv = JUndefined then safeGet obj k else settled s nv)"
proof (induction news arbitrary: obj)
  case Nil
  then show ?case by simp
next
  case (Cons a news)
  obtain k' s' nv' where a: "a = (k', s', nv')" by (cases a)
  show ?case
  proof (cases "(k, s, nv) = a")
    case True
    with a have eq: "k' = k" "s' = s" "nv' = nv" by auto
    from Cons.prems(1) a eq have "k \<notin> fst ` set news" by auto
    then show ?thesis
      by (simp add: a eq assign_all_Cons safeGet_assign_all_other safeGet_assignMergeValue)
  next
    case False
    with Cons.prems(2) have mem: "(k, s, nv) \<in> set news" by simp
    then have "k \<in> fst ` set news" by force
    with Cons.prems(1) a have "k \<noteq> k'" by auto
    moreover from Cons.prems(1) have "distinct (map fst news)" by simp
    ultimately show ?thesis
      using Cons.IH [OF _ mem, of "assignMergeValue obj k' (settled s' nv')"]
      by (simp add: a assign_all_Cons safeGet_assignMergeValue)
  qed
qed

lemma keys_assign_all:
  "fst ` set (assign_all news obj) = fst ` set obj \<union> fst ` set news"
proof (induction news arbitrary: obj)
  case Nil
  then show ?case by (simp add: assign_all_Nil)
next
  case (Cons a news)
  obtain k' s' nv' where a: "a = (k', s', nv')" by (cases a)
  show ?case by (auto simp: a assign_all_Cons Cons.IH keys_assignMergeValue)
qed

lemma distinct_assign_all:
  "distinct (map fst obj) \<Longrightarrow> distinct (map fst (assign_all news obj))"
proof (induction news arbitrary: obj)
  case Nil
  then show ?case by (simp add: assign_all_Nil)
next
  case (Cons a news)
  obtain k' s' nv' where a: "a = (k', s', nv')" by (cases a)
  show ?case using Cons.prems
    by (simp add: a assign_all_Cons Cons.IH distinct_assignMergeValue)
qed


lemma first_error_calls_Inr:
  "first_error (calls c obj ps) = Inr news \<Longrightarrow>
     map fst news = map fst ps \<and>
     (\<forall>k s nv. (k, s, nv) \<in> set news \<longleftrightarrow> (k, s) \<in> set ps \<and> c (safeGet obj k) s k = Inr nv)"
proof (induction ps arbitrary: news)
  case Nil
  then show ?case by (simp add: calls_def)
next
  case (Cons p ps)
  obtain k s where p: "p = (k, s)" by (cases p)
  from Cons.prems obtain v vs where
    v: "c (safeGet obj k) s k = Inr v" and vs: "first_error (calls c obj ps) = Inr vs"
    and news: "news = (k, s, v) # vs"
    by (auto simp: calls_def p split: sum.splits)
  from Cons.IH [OF vs] show ?case using v by (auto simp: news p)
qed

lemma first_error_calls_Inl:
  "first_error (calls c obj ps) = Inl e \<Longrightarrow>
     \<exists>k s. (k, s) \<in> set ps \<and> c (safeGet obj k) s k = Inl e"
proof (induction ps)
  case Nil
  then show ?case by (simp add: calls_def)
next
  case (Cons p ps)
  obtain k s where p: "p = (k, s)" by (cases p)
  show ?case
  proof (cases "c (safeGet obj k) s k")
    case (Inl e')
    with Cons.prems have "e' = e" by (simp add: calls_def p)
    with Inl show ?thesis by (auto simp: p)
  next
    case (Inr v)
    with Cons.prems have "first_error (calls c obj ps) = Inl e"
      by (auto simp: calls_def p split: sum.splits)
    from Cons.IH [OF this] show ?thesis by auto
  qed
qed

lemma first_error_calls_total:
  "(\<And>k s. (k, s) \<in> set ps \<Longrightarrow> \<exists>v. c (safeGet obj k) s k = Inr v) \<Longrightarrow>
     \<exists>news. first_error (calls c obj ps) = Inr news"
  using first_error_calls_Inl [of c obj ps]
  by (cases "first_error (calls c obj ps)") fastforce+

lemma baseMerge_calls:
  "baseMerge c obj src =
     (case first_error (calls c obj (keysIn src)) of
        Inl e \<Rightarrow> Inl e | Inr news \<Rightarrow> Inr (assign_all news obj))"
  by (simp add: baseMerge_def calls_def)

subsection \<open>One pass over a source\<close>

lemma baseMerge_key:
  assumes "distinct (map fst (keysIn src))" and "baseMerge c obj src = Inr obj'"
  shows "(k \<notin> fst ` set (keysIn src) \<longrightarrow> safeGet obj' k = safeGet obj k) \<and>
         (\<forall>s. (k, s) \<in> set (keysIn src) \<longrightarrow>
            (\<exists>nv. c (safeGet obj k) s k = Inr nv \<and>
               safeGet obj' k = (if settled s nv = JUndefined then safeGet obj k else settled s nv)))"
proof -
  from assms(2) obtain news where
    fe: "first_error (calls c obj (keysIn src)) = Inr news" and obj': "obj' = assign_all news obj"
    by (auto simp: baseMerge_calls split: sum.splits)
  note fc = first_error_calls_Inr [OF fe]
  from fc assms(1) have dn: "distinct (map fst news)" by simp
  from fc have keys: "fst ` set news = fst ` set (keysIn src)"
    by (metis list.set_map)
  show ?thesis
  proof (intro conjI impI allI)
    assume "k \<notin> fst ` set (keysIn src)"
    then show "safeGet obj' k = safeGet obj k"
      by (simp add: obj' keys safeGet_assign_all_other)
  next
    fix s assume "(k, s) \<in> set (keysIn src)"
    then have "\<exists>nv. (k, s, nv) \<in> set news"
    proof -
      assume m: "(k, s) \<in> set (keysIn src)"
      then have "k \<in> fst ` set news" using keys by force
      then obtain s' nv where m': "(k, s', nv) \<in> set news" by force
      with fc have "(k, s') \<in> set (keysIn src)" by blast
      with m assms(1) have "s' = s" by (meson eq_key_imp_eq_value)
      with m' show ?thesis by blast
    qed
    then obtain nv where m: "(k, s, nv) \<in> set news" by blast
    with fc have "c (safeGet obj k) s k = Inr nv" by blast
    moreover have "safeGet obj' k = (if settled s nv = JUndefined then safeGet obj k else settled s nv)"
      unfolding obj' by (rule safeGet_assign_all [OF dn m])
    ultimately show "\<exists>nv. c (safeGet obj k) s k = Inr nv \<and>
               safeGet obj' k = (if settled s nv = JUndefined then safeGet obj k else settled s nv)"
      by blast
  qed
qed

lemma baseMerge_keys:
  "baseMerge c obj src = Inr obj' \<Longrightarrow>
     fst ` set obj' = fst ` set obj \<union> fst ` set (keysIn src)"
proof -
  assume a: "baseMerge c obj src = Inr obj'"
  then obtain news where
    fe: "first_error (calls c obj (keysIn src)) = Inr news" and obj': "obj' = assign_all news obj"
    by (auto simp: baseMerge_calls split: sum.splits)
  from first_error_calls_Inr [OF fe] have "fst ` set news = fst ` set (keysIn src)"
    by (metis list.set_map)
  then show ?thesis by (simp add: obj' keys_assign_all)
qed

lemma baseMerge_distinct:
  "baseMerge c obj src = Inr obj' \<Longrightarrow> distinct (map fst obj) \<Longrightarrow> distinct (map fst obj')"
  by (auto simp: baseMerge_calls distinct_assign_all split: sum.splits)

lemma baseMerge_Inl:
  "baseMerge c obj src = Inl e \<Longrightarrow>
     \<exists>k s. (k, s) \<in> set (keysIn src) \<and> c (safeGet obj k) s k = Inl e"
  by (auto simp: baseMerge_calls split: sum.splits dest: first_error_calls_Inl)

lemma baseMerge_total:
  "(\<And>k s. (k, s) \<in> set (keysIn src) \<Longrightarrow> \<exists>v. c (safeGet obj k) s k = Inr v) \<Longrightarrow>
     \<exists>obj'. baseMerge c obj src = Inr obj'"
  using first_error_calls_total [of "keysIn src" c obj]
  by (auto simp: baseMerge_calls)


lemma deepConfigMerge_Undefined_left: "deepConfigMerge JUndefined s k = Inr s"
  by (simp add: deepConfigMerge.simps)

lemma deepConfigMerge_Undefined_right: "deepConfigMerge x JUndefined k = Inr x"
  by (simp add: deepConfigMerge.simps)

lemma deepConfigMerge_Undefined:
  "deepConfigMerge x s k = Inr JUndefined \<Longrightarrow> x = JUndefined \<and> s = JUndefined"
  by (subst (asm) deepConfigMerge.simps) (auto split: if_splits sum.splits)

lemma deepConfigMerge_scalar:
  "scalar x \<Longrightarrow> s \<noteq> JUndefined \<Longrightarrow> deepConfigMerge x s k = Inr s"
  by (cases x) (simp_all add: deepConfigMerge.simps)

lemma deepConfigMerge_Arr:
  "s \<noteq> JUndefined \<Longrightarrow>
   deepConfigMerge (JArr xs) s k =
     Inr (JArr (js_concat xs (if isArray s then elements s else [s])))"
  by (simp add: deepConfigMerge.simps)

lemma deepConfigMerge_mergeWith:
  "js_typeof s = ''object'' \<Longrightarrow>
   deepConfigMerge (JObj b) s k =
     (case mergeWith deepConfigMerge [] [JObj b, s] of
        Inl e \<Rightarrow> Inl e | Inr object \<Rightarrow> Inr (JObj object))"
  by (subst deepConfigMerge.simps) (auto split: sum.splits)

lemma deepConfigMerge_Obj_error:
  "s \<noteq> JUndefined \<Longrightarrow> js_typeof s \<noteq> ''object'' \<Longrightarrow>
   deepConfigMerge (JObj b) s k = Inl (merge_error k s)"
  by (simp add: deepConfigMerge.simps)

lemma baseMerge_deepConfigMerge_key:
  assumes "distinct (map fst (keysIn src))" and "baseMerge deepConfigMerge obj src = Inr obj'"
  shows "deepConfigMerge (safeGet obj k) (safeGet (keysIn src) k) k = Inr (safeGet obj' k)"
proof (cases "k \<in> fst ` set (keysIn src)")
  case False
  then show ?thesis
    using baseMerge_key [OF assms, of k]
    by (simp add: safeGet_absent deepConfigMerge_Undefined_right)
next
  case True
  then obtain s where m: "(k, s) \<in> set (keysIn src)" by force
  with assms(1) have sg: "safeGet (keysIn src) k = s" by (simp add: safeGet_def)
  from baseMerge_key [OF assms, of k] m obtain nv where
    nv: "deepConfigMerge (safeGet obj k) s k = Inr nv"
    and r: "safeGet obj' k = (if settled s nv = JUndefined then safeGet obj k else settled s nv)"
    by blast
  show ?thesis
  proof (cases "nv = JUndefined")
    case True
    with nv have "safeGet obj k = JUndefined \<and> s = JUndefined"
      using deepConfigMerge_Undefined by blast
    with r True show ?thesis by (simp add: sg settled_def deepConfigMerge_Undefined_left)
  next
    case False
    with r nv show ?thesis by (simp add: sg settled_def)
  qed
qed

subsection \<open>The loop, copies and the fold over the sources\<close>

lemma calls_Cons:
  "calls c obj ((k, s) # ps) = (k, s, c (safeGet obj k) s k) # calls c obj ps"
  by (simp add: calls_def)

lemma calls_cong_obj:
  "(\<And>k. k \<in> fst ` set ps \<Longrightarrow> safeGet obj k = safeGet obj' k) \<Longrightarrow>
     calls c obj ps = calls c obj' ps"
  unfolding calls_def by (rule map_cong) force+

lemma baseMerge_loop_eq:
  "distinct (map fst ps) \<Longrightarrow>
   baseMerge_loop c obj ps =
     (case first_error (calls c obj ps) of
        Inl e \<Rightarrow> Inl e | Inr news \<Rightarrow> Inr (assign_all news obj))"
proof (induction ps arbitrary: obj)
  case Nil
  then show ?case by (simp add: calls_def assign_all_Nil)
next
  case (Cons p ps)
  obtain k s where p: "p = (k, s)" by (cases p)
  from Cons.prems p have nk: "k \<notin> fst ` set ps" and d: "distinct (map fst ps)" by auto
  show ?case
  proof (cases "c (safeGet obj k) s k")
    case (Inl e)
    then show ?thesis by (simp add: p calls_Cons)
  next
    case (Inr nv)
    let ?obj1 = "assignMergeValue obj k (settled s nv)"
    have "calls c ?obj1 ps = calls c obj ps"
      using nk by (intro calls_cong_obj) (auto simp: safeGet_assignMergeValue)
    with Cons.IH [OF d, of ?obj1] Inr show ?thesis
      by (simp add: p calls_Cons settled_def assign_all_Cons split: sum.splits)
  qed
qed

lemma baseMerge_is_loop:
  "distinct (map fst (keysIn src)) \<Longrightarrow>
     baseMerge c obj src = baseMerge_loop c obj (keysIn src)"
  by (simp add: baseMerge_loop_eq baseMerge_calls)


lemma assignMergeValue_fresh:
  "k \<notin> fst ` set obj \<Longrightarrow> assignMergeValue obj k v = obj @ [(k, v)]"
proof -
  assume a: "k \<notin> fst ` set obj"
  then have "baseAssignValue obj k v = obj @ [(k, v)]"
    by (induction obj) auto
  moreover from a have "safeGet obj k = JUndefined" by (rule safeGet_absent)
  ultimately show ?thesis using a by (auto simp: assignMergeValue_def)
qed

lemma baseMerge_loop_copy:
  "distinct (map fst ps) \<Longrightarrow> fst ` set ps \<inter> fst ` set obj = {} \<Longrightarrow>
     baseMerge_loop deepConfigMerge obj ps = Inr (obj @ ps)"
proof (induction ps arbitrary: obj)
  case Nil
  then show ?case by simp
next
  case (Cons p ps)
  obtain k s where p: "p = (k, s)" by (cases p)
  from Cons.prems p have nk: "k \<notin> fst ` set obj" by auto
  then have sg: "safeGet obj k = JUndefined" by (rule safeGet_absent)
  have "baseMerge_loop deepConfigMerge (obj @ [(k, s)]) ps = Inr ((obj @ [(k, s)]) @ ps)"
    using Cons.prems p by (intro Cons.IH) auto
  then show ?case
    by (simp add: p sg deepConfigMerge_Undefined_left assignMergeValue_fresh [OF nk])
qed

lemma baseMerge_copy:
  "distinct (map fst ps) \<Longrightarrow> baseMerge deepConfigMerge [] (JObj ps) = Inr ps"
  using baseMerge_loop_copy [of ps "[]"] by (simp add: baseMerge_is_loop)

lemma baseMerge_empty: "baseMerge c obj (JObj []) = Inr obj"
  by (simp add: baseMerge_def assign_all_def)

lemma keysIn_falsy: "\<not> truthy s \<Longrightarrow> keysIn s = []"
  by (cases s) (auto simp: index_keys_def)


lemma mergeWith_key:
  "\<forall>s\<in>set srcs. distinct (map fst (keysIn s)) \<Longrightarrow>
   mergeWith deepConfigMerge obj srcs = Inr r \<Longrightarrow>
   merge_values k (safeGet obj k) (map (\<lambda>s. safeGet (keysIn s) k) srcs) = Inr (safeGet r k)"
proof (induction srcs arbitrary: obj)
  case Nil
  then show ?case by simp
next
  case (Cons s srcs)
  show ?case
  proof (cases "truthy s")
    case False
    then have "keysIn s = []" by (rule keysIn_falsy)
    with Cons False show ?thesis
      by (simp add: safeGet_Nil deepConfigMerge_Undefined_right)
  next
    case True
    with Cons.prems(2) obtain obj1 where
      b: "baseMerge deepConfigMerge obj s = Inr obj1"
      and m: "mergeWith deepConfigMerge obj1 srcs = Inr r"
      by (auto split: sum.splits)
    from Cons.prems(1) have d: "distinct (map fst (keysIn s))" by simp
    from baseMerge_deepConfigMerge_key [OF d b, of k] Cons.IH [OF _ m] Cons.prems(1)
    show ?thesis by simp
  qed
qed

lemma mergeWith_keys:
  "mergeWith c obj srcs = Inr r \<Longrightarrow>
     fst ` set r = fst ` set obj \<union> (\<Union>s\<in>set srcs. fst ` set (keysIn s))"
proof (induction srcs arbitrary: obj)
  case Nil
  then show ?case by simp
next
  case (Cons s srcs)
  show ?case
  proof (cases "truthy s")
    case False
    then have "keysIn s = []" by (rule keysIn_falsy)
    with Cons False show ?thesis by simp
  next
    case True
    with Cons.prems obtain obj1 where
      b: "baseMerge c obj s = Inr obj1" and m: "mergeWith c obj1 srcs = Inr r"
      by (auto split: sum.splits)
    from Cons.IH [OF m] baseMerge_keys [OF b] show ?thesis by auto
  qed
qed

lemma merge_values_scalar:
  "x = JUndefined \<or> scalar x \<Longrightarrow> \<forall>v\<in>set vs. v = JUndefined \<or> scalar v \<Longrightarrow>
     merge_values k x vs = Inr (last_defined (x # vs))"
proof (induction vs arbitrary: x)
  case Nil
  then show ?case by simp
next
  case (Cons v vs)
  have step: "deepConfigMerge x v k = Inr (if v = JUndefined then x else v)"
    using Cons.prems(1)
    by (auto simp: deepConfigMerge_Undefined_left deepConfigMerge_Undefined_right
        deepConfigMerge_scalar)
  have "merge_values k (if v = JUndefined then x else v) vs =
          Inr (last_defined ((if v = JUndefined then x else v) # vs))"
    using Cons.prems by (intro Cons.IH) auto
  with step show ?case
    by auto
qed

lemma merged_key:
  assumes "merged rt options raw = Inr candidate"
    and "\<forall>s\<in>set (sources rt options raw). distinct (map fst (keysIn s))"
  shows "merge_values k JUndefined (map (\<lambda>s. safeGet (keysIn s) k) (sources rt options raw))
           = Inr (safeGet (keysIn candidate) k)"
proof -
  from assms(1) obtain m where
    m: "mergeWith deepConfigMerge [] (sources rt options raw) = Inr m" and c: "candidate = JObj m"
    by (auto simp: merged_def split: sum.splits)
  from mergeWith_key [OF assms(2) m, of k] show ?thesis
    by (simp add: c safeGet_Nil)
qed

lemma concat_spreadable:
  "\<forall>x\<in>set args. \<not> isArray x \<Longrightarrow> concat (map spreadable args) = args"
proof (induction args)
  case Nil
  then show ?case by simp
next
  case (Cons a args)
  then have "\<not> isArray a" by simp
  then have "spreadable a = [a]" by (cases a) auto
  with Cons show ?case by simp
qed

lemma deepConfigMerge_Obj_Obj:
  assumes "distinct (map fst base)"
  shows "deepConfigMerge (JObj base) (JObj over) key =
     (case baseMerge deepConfigMerge base (JObj over) of
        Inl e \<Rightarrow> Inl e | Inr object \<Rightarrow> Inr (JObj object))"
  by (simp add: deepConfigMerge_mergeWith baseMerge_copy [OF assms] split: sum.splits)

subsection \<open>Splitting and walking\<close>

lemma split_on_nonempty: "split_on sep s \<noteq> []"
  by (induction s) (auto split: list.splits)

lemma join_on_push: "join_on sep ((c # seg) # segs) = c # join_on sep (seg # segs)"
  by (cases segs) auto

lemma join_on_empty_first: "segs \<noteq> [] \<Longrightarrow> join_on sep ([] # segs) = sep # join_on sep segs"
  by (cases segs) auto

lemma join_split_on: "join_on sep (split_on sep s) = s"
proof (induction s)
  case Nil
  then show ?case by simp
next
  case (Cons c cs)
  show ?case
  proof (cases "c = sep")
    case True
    then show ?thesis using Cons by (simp add: join_on_empty_first split_on_nonempty)
  next
    case False
    obtain seg segs where s: "split_on sep cs = seg # segs"
      using split_on_nonempty [of sep cs] by (cases "split_on sep cs") auto
    with Cons False show ?thesis by (simp add: join_on_push)
  qed
qed

lemma split_on_no_sep: "seg \<in> set (split_on sep s) \<Longrightarrow> sep \<notin> set seg"
proof (induction s arbitrary: seg)
  case Nil
  then show ?case by simp
next
  case (Cons c cs)
  show ?case
  proof (cases "c = sep")
    case True
    with Cons show ?thesis by auto
  next
    case False
    obtain x xs where s: "split_on sep cs = x # xs"
      using split_on_nonempty [of sep cs] by (cases "split_on sep cs") auto
    with Cons.prems False have "seg = c # x \<or> seg \<in> set xs" by simp
    then show ?thesis
    proof
      assume "seg = c # x"
      moreover have "sep \<notin> set x" using Cons.IH [of x] s by simp
      ultimately show ?thesis using False by auto
    next
      assume "seg \<in> set xs"
      then show ?thesis using Cons.IH [of seg] s by simp
    qed
  qed
qed

lemma split_dot_nonempty: "split_dot p \<noteq> []"
  by (simp add: split_dot_def split_on_nonempty)

lemma walk_Nil: "walk inh v [] = v"
  by (simp add: walk_def)

lemma walk_Cons: "walk inh v (k # ks) = walk inh (getProp inh v k) ks"
  by (simp add: walk_def)





lemma getProp_own: "own_property v k = Some x \<Longrightarrow> getProp inh v k = x"
  by (cases v) (auto simp: getProp_def)

lemma getProp_Obj:
  "getProp inh (JObj ps) k = (case map_of ps k of Some x \<Rightarrow> x | None \<Rightarrow> inh (JObj ps) k)"
  by (simp add: getProp_def)

lemma getProp_Obj_defined: "safeGet ps k \<noteq> JUndefined \<Longrightarrow> getProp inh (JObj ps) k = safeGet ps k"
  by (auto simp: getProp_def safeGet_def split: option.splits)


lemma nullish_defaults: "nullish (defaults options) (JObj []) = defaults options"
  by (simp add: defaults_def nullish_def)

lemma mergeWith_skip_empty:
  "s = JObj [] \<or> \<not> truthy s \<Longrightarrow> mergeWith c obj (s # srcs) = mergeWith c obj srcs"
  by (auto simp: baseMerge_empty)

lemma mergeWith_skip:
  "s = JObj [] \<or> \<not> truthy s \<Longrightarrow>
     mergeWith c obj (xs @ s # ys) = mergeWith c obj (xs @ ys)"
proof (induction xs arbitrary: obj)
  case Nil
  then show ?case using mergeWith_skip_empty [of s c obj ys] by simp
next
  case (Cons x xs)
  then show ?case by (simp split: sum.splits)
qed

lemma deepConfigMerge_defined:
  "deepConfigMerge x v k = Inr y \<Longrightarrow> v \<noteq> JUndefined \<Longrightarrow> y \<noteq> JUndefined"
  using deepConfigMerge_Undefined by blast

lemma merge_values_Undefined:
  "\<forall>v\<in>set vs. v = JUndefined \<Longrightarrow> merge_values k x vs = Inr x"
  by (induction vs) (simp_all add: deepConfigMerge_Undefined_right)

lemma merge_values_append:
  "merge_values k x (vs @ ws) =
     (case merge_values k x vs of Inl e \<Rightarrow> Inl e | Inr y \<Rightarrow> merge_values k y ws)"
  by (induction vs arbitrary: x) (auto split: sum.splits)

subsection \<open>Index names\<close>

lemma digit_value_digit_char: "d < 10 \<Longrightarrow> digit_value (digit_char d) = d"
  by (simp add: digit_value_def digit_char_def)

lemma nat_of_string_snoc: "nat_of_string (s @ [c]) = 10 * nat_of_string s + digit_value c"
  by (simp add: nat_of_string_def)

lemma nat_of_string_of_nat: "nat_of_string (string_of_nat n) = n"
proof (induction n rule: string_of_nat.induct)
  case (1 n)
  show ?case
  proof (cases "n < 10")
    case True
    then show ?thesis
      by (subst string_of_nat.simps) (simp add: nat_of_string_def digit_value_digit_char)
  next
    case False
    with 1 have "nat_of_string (string_of_nat (n div 10)) = n div 10" by simp
    with False show ?thesis
      by (subst string_of_nat.simps) (simp add: nat_of_string_snoc digit_value_digit_char)
  qed
qed

lemma inj_string_of_nat: "inj string_of_nat"
  by (rule inj_on_inverseI [where g = nat_of_string]) (rule nat_of_string_of_nat)

lemma distinct_index_keys: "distinct (index_keys n)"
  by (simp add: index_keys_def distinct_map inj_string_of_nat [THEN inj_on_subset])

lemma length_index_keys: "length (index_keys n) = n"
  by (simp add: index_keys_def)

lemma well_formed_distinct: "well_formed s \<Longrightarrow> distinct (map fst (keysIn s))"
  by (cases s) (simp_all add: well_formed_def distinct_index_keys length_index_keys)






subsection \<open>Sources that contribute nothing\<close>

lemma merged_without_prefix:
  assumes "prefixedRaw rt options raw = JUndefined \<or> prefixedRaw rt options raw = JNull
           \<or> prefixedRaw rt options raw = JStr []"
  shows "merged rt options raw =
     (case mergeWith deepConfigMerge [] [defaults options, raw, parsedCommandLine rt options] of
        Inl e \<Rightarrow> Inl e | Inr object \<Rightarrow> Inr (JObj object))"
proof -
  let ?p = "nullish (prefixedRaw rt options raw) (JObj [])"
  have p: "?p = JObj [] \<or> \<not> truthy ?p"
    using assms by (auto simp: nullish_def)
  have src: "sources rt options raw = [defaults options, raw, ?p, parsedCommandLine rt options]"
    by (simp add: sources_def nullish_defaults)
  have "mergeWith deepConfigMerge [] (sources rt options raw)
      = mergeWith deepConfigMerge [] [defaults options, raw, parsedCommandLine rt options]"
    unfolding src
    using mergeWith_skip [OF p, of deepConfigMerge "[]" "[defaults options, raw]"
        "[parsedCommandLine rt options]"]
    by simp
  then show ?thesis by (simp add: merged_def)
qed

lemma mergeWith_without_file:
  "mergeWith deepConfigMerge [] [d, JObj [], c] = mergeWith deepConfigMerge [] [d, c]"
  using mergeWith_skip [of "JObj []" deepConfigMerge "[]" "[d]" "[c]"] by simp

lemma merged_candidate_Obj: "merged rt options raw = Inr candidate \<Longrightarrow> \<exists>m. candidate = JObj m"
  by (auto simp: merged_def split: sum.splits)

lemma merge_values_four:
  assumes "d = JUndefined \<or> scalar d" and "f = JUndefined \<or> scalar f"
    and "p = JUndefined \<or> scalar p" and "c = JUndefined \<or> scalar c"
  shows "merge_values k JUndefined [d, f, p, c] =
     Inr (if c \<noteq> JUndefined then c else if p \<noteq> JUndefined then p
          else if f \<noteq> JUndefined then f else d)"
proof -
  have "merge_values k JUndefined [d, f, p, c] = Inr (last_defined [JUndefined, d, f, p, c])"
    using assms by (intro merge_values_scalar) auto
  then show ?thesis by auto
qed

subsection \<open>Arrays and objects where the merge does append and recurse\<close>

text \<open>An array takes the elements of an override that holds no arrays, and any other
  present override as one element.\<close>

lemma array_append_plain:
  "(srcValue \<noteq> JUndefined \<longrightarrow> (\<forall>x\<in>set (elements srcValue). \<not> isArray x) \<longrightarrow>
      (\<exists>ys. deepConfigMerge (JArr xs) srcValue key = Inr (JArr ys)
         \<and> ys = xs @ (if isArray srcValue then elements srcValue else [srcValue])
         \<and> length ys
             = length xs + length (if isArray srcValue then elements srcValue else [srcValue])))
   \<and> deepConfigMerge (JArr xs) JUndefined key = Inr (JArr xs)"
proof (intro conjI impI)
  assume d: "srcValue \<noteq> JUndefined" and flat: "\<forall>x\<in>set (elements srcValue). \<not> isArray x"
  let ?args = "if isArray srcValue then elements srcValue else [srcValue]"
  have "\<forall>x\<in>set ?args. \<not> isArray x" using flat by simp
  then have "js_concat xs ?args = xs @ ?args"
    unfolding js_concat_def by (simp only: concat_spreadable)
  with deepConfigMerge_Arr [OF d, of xs key]
  have "deepConfigMerge (JArr xs) srcValue key = Inr (JArr (xs @ ?args))" by simp
  then show "\<exists>ys. deepConfigMerge (JArr xs) srcValue key = Inr (JArr ys)
         \<and> ys = xs @ ?args \<and> length ys = length xs + length ?args"
    by simp
next
  show "deepConfigMerge (JArr xs) JUndefined key = Inr (JArr xs)"
    by (rule deepConfigMerge_Undefined_right)
qed

text \<open>An object rejects a boolean, a number and a string, and merges with an object key by
  key.\<close>

lemma object_merge_mappings:
  "deepConfigMerge (JObj base) JUndefined key = Inr (JObj base)
   \<and> ((\<exists>b. srcValue = JBool b) \<or> (\<exists>n. srcValue = JNum n) \<or> (\<exists>t. srcValue = JStr t) \<longrightarrow>
        deepConfigMerge (JObj base) srcValue key
          = Inl (Error (''Cannot merge '' @ key @ '' into an object from type ''
                        @ js_typeof srcValue)))
   \<and> (well_formed (JObj base) \<longrightarrow> well_formed (JObj over) \<longrightarrow>
        (case deepConfigMerge (JObj base) (JObj over) key of
           Inr r \<Rightarrow>
             (\<exists>ps. r = JObj ps \<and> fst ` set ps = fst ` set base \<union> fst ` set over
                \<and> (\<forall>k. deepConfigMerge (safeGet base k) (safeGet over k) k = Inr (safeGet ps k)))
         | Inl e \<Rightarrow>
             (\<exists>k s. (k, s) \<in> set over \<and> deepConfigMerge (safeGet base k) s k = Inl e)))"
proof (intro conjI impI)
  show "deepConfigMerge (JObj base) JUndefined key = Inr (JObj base)"
    by (rule deepConfigMerge_Undefined_right)
next
  assume "(\<exists>b. srcValue = JBool b) \<or> (\<exists>n. srcValue = JNum n) \<or> (\<exists>t. srcValue = JStr t)"
  then have "srcValue \<noteq> JUndefined" and "js_typeof srcValue \<noteq> ''object''" by auto
  then show "deepConfigMerge (JObj base) srcValue key
          = Inl (Error (''Cannot merge '' @ key @ '' into an object from type ''
                        @ js_typeof srcValue))"
    using deepConfigMerge_Obj_error [of srcValue base key] by (simp add: merge_error_def)
next
  assume "well_formed (JObj base)" and "well_formed (JObj over)"
  then have db: "distinct (map fst base)" and dov: "distinct (map fst over)"
    by (simp_all add: well_formed_def)
  note eq = deepConfigMerge_Obj_Obj [OF db, of over key]
  show "case deepConfigMerge (JObj base) (JObj over) key of
           Inr r \<Rightarrow>
             (\<exists>ps. r = JObj ps \<and> fst ` set ps = fst ` set base \<union> fst ` set over
                \<and> (\<forall>k. deepConfigMerge (safeGet base k) (safeGet over k) k = Inr (safeGet ps k)))
         | Inl e \<Rightarrow>
             (\<exists>k s. (k, s) \<in> set over \<and> deepConfigMerge (safeGet base k) s k = Inl e)"
  proof (cases "baseMerge deepConfigMerge base (JObj over)")
    case (Inl e)
    from baseMerge_Inl [OF Inl] show ?thesis by (simp add: eq Inl)
  next
    case (Inr ps)
    have d: "distinct (map fst (keysIn (JObj over)))" using dov by simp
    have "\<forall>k. deepConfigMerge (safeGet base k) (safeGet over k) k = Inr (safeGet ps k)"
      using baseMerge_deepConfigMerge_key [OF d Inr] by simp
    moreover have "fst ` set ps = fst ` set base \<union> fst ` set over"
      using baseMerge_keys [OF Inr] by simp
    ultimately show ?thesis by (simp add: eq Inr)
  qed
qed

section \<open>The claims\<close>

subsection \<open>Precedence of the sources\<close>

text \<open>
  Claim C1. The four sources are folded with the deep merge in the order defaults, file
  content, prefixed sub-tree, command line, and on scalar conflicts a later source
  overrides what the earlier ones have accumulated: under a key where each of the four
  holds a scalar or nothing, the candidate handed to the schema holds the command line's
  value if there is one, else the prefixed sub-tree's, else the file's, else the
  defaults'. (The sources are well-formed: each names a key once.) For defaults
  \<open>{a: 1, b: 1}\<close>, file \<open>{a: 2}\<close> and command line \<open>{a: 3}\<close> this gives \<open>a = 3\<close> and \<open>b = 1\<close>;
  without the command line's \<open>a\<close> it gives \<open>a = 2\<close>. Both runs are in the witness.
\<close>

theorem merged_precedence:
  assumes "merged rt options raw = Inr candidate"
    and "well_formed (defaults options)" and "well_formed raw"
    and "well_formed (nullish (prefixedRaw rt options raw) (JObj []))"
    and "well_formed (parsedCommandLine rt options)"
    and "d = safeGet (keysIn (defaults options)) k" and "d = JUndefined \<or> scalar d"
    and "f = safeGet (keysIn raw) k" and "f = JUndefined \<or> scalar f"
    and "p = safeGet (keysIn (nullish (prefixedRaw rt options raw) (JObj []))) k"
    and "p = JUndefined \<or> scalar p"
    and "c = safeGet (keysIn (parsedCommandLine rt options)) k" and "c = JUndefined \<or> scalar c"
  shows "safeGet (keysIn candidate) k =
           (if c \<noteq> JUndefined then c else if p \<noteq> JUndefined then p
            else if f \<noteq> JUndefined then f else d)
       \<and> (safeGet (keysIn candidate) k \<noteq> JUndefined \<longrightarrow>
            getProp (inherited rt) candidate k = safeGet (keysIn candidate) k)"
proof -
  have src: "sources rt options raw =
      [defaults options, raw, nullish (prefixedRaw rt options raw) (JObj []),
       parsedCommandLine rt options]"
    by (simp add: sources_def nullish_defaults)
  have wf: "\<forall>s\<in>set (sources rt options raw). distinct (map fst (keysIn s))"
    unfolding src using assms(2-5) by (simp add: well_formed_distinct)
  have "merge_values k JUndefined [d, f, p, c] = Inr (safeGet (keysIn candidate) k)"
    using merged_key [OF assms(1) wf, of k] unfolding src
    by (simp only: list.map assms(6,8,10,12))
  with merge_values_four [OF assms(7,9,11,13), of k]
  have own: "safeGet (keysIn candidate) k =
           (if c \<noteq> JUndefined then c else if p \<noteq> JUndefined then p
            else if f \<noteq> JUndefined then f else d)"
    by simp
  from merged_candidate_Obj [OF assms(1)] obtain m where m: "candidate = JObj m" by blast
  have "safeGet (keysIn candidate) k \<noteq> JUndefined \<longrightarrow>
            getProp (inherited rt) candidate k = safeGet (keysIn candidate) k"
    by (simp add: m getProp_Obj_defined)
  with own show ?thesis by blast
qed

theorem merged_precedence_witness:
  "snd (rawData example_runtime example_options) = Inr example_json
   \<and> merged example_runtime example_options example_json
       = Inr (JObj [(''a'', JNum 3), (''b'', JNum 1), (''_'', JArr [])])
   \<and> safeGet (keysIn (JObj [(''a'', JNum 3), (''b'', JNum 1), (''_'', JArr [])])) ''a'' = JNum 3
   \<and> safeGet (keysIn (JObj [(''a'', JNum 3), (''b'', JNum 1), (''_'', JArr [])])) ''b'' = JNum 1
   \<and> getConfigGetter example_runtime Inr example_options
       = Inr (Getter (JObj [(''a'', JNum 3), (''b'', JNum 1), (''_'', JArr [])]))
   \<and> merged example_runtime_plain example_options example_json
       = Inr (JObj [(''a'', JNum 2), (''b'', JNum 1), (''_'', JArr [])])
   \<and> safeGet (keysIn (JObj [(''a'', JNum 2), (''b'', JNum 1), (''_'', JArr [])])) ''a'' = JNum 2"
proof -
  let ?c = "JObj [(''a'', JNum 3), (''b'', JNum 1), (''_'', JArr [])]"
  let ?c2 = "JObj [(''a'', JNum 2), (''b'', JNum 1), (''_'', JArr [])]"
  have m: "merged example_runtime example_options example_json = Inr ?c"
    by code_simp
  have m2: "merged example_runtime_plain example_options example_json = Inr ?c2"
    by code_simp
  have d: "defaults example_options = JObj [(''a'', JNum 1), (''b'', JNum 1)]"
    by code_simp
  have p: "nullish (prefixedRaw rt example_options example_json) (JObj []) = JObj []" for rt
    by (simp add: prefixedRaw_def example_options_def nullish_def)
  have c: "parsedCommandLine example_runtime example_options
             = JObj [(''_'', JArr []), (''a'', JNum 3)]"
    by code_simp
  have c2: "parsedCommandLine example_runtime_plain example_options = JObj [(''_'', JArr [])]"
    by code_simp
  have wd: "well_formed (defaults example_options)"
    unfolding d by (simp add: well_formed_def)
  have wr: "well_formed example_json" by (simp add: well_formed_def example_json_def)
  have wp: "well_formed (nullish (prefixedRaw rt example_options example_json) (JObj []))" for rt
    unfolding p by (simp add: well_formed_def)
  have wc: "well_formed (parsedCommandLine example_runtime example_options)"
    unfolding c by (simp add: well_formed_def)
  have wc2: "well_formed (parsedCommandLine example_runtime_plain example_options)"
    unfolding c2 by (simp add: well_formed_def)
  have a: "safeGet (keysIn ?c) ''a'' = JNum 3"
    using merged_precedence [OF m wd wr wp wc refl _ refl _ refl _ refl, of "''a''"]
    unfolding d p c by (simp add: safeGet_def example_json_def)
  have b: "safeGet (keysIn ?c) ''b'' = JNum 1"
    using merged_precedence [OF m wd wr wp wc refl _ refl _ refl _ refl, of "''b''"]
    unfolding d p c by (simp add: safeGet_def example_json_def)
  have a2: "safeGet (keysIn ?c2) ''a'' = JNum 2"
    using merged_precedence [OF m2 wd wr wp wc2 refl _ refl _ refl _ refl, of "''a''"]
    unfolding d p c2 by (simp add: safeGet_def example_json_def)
  have r: "snd (rawData example_runtime example_options) = Inr example_json"
    by code_simp
  have g: "getConfigGetter example_runtime Inr example_options = Inr (Getter ?c)"
    by code_simp
  from r m a b g m2 a2 show ?thesis by blast
qed

subsection \<open>Arrays\<close>

text \<open>
  Claim C2. For all arrays \<open>A\<close> and \<open>B\<close> the merge is to be \<open>A\<close> followed by the elements of
  \<open>B\<close>, of length \<open>len A + len B\<close>, whatever the elements are. Line 94 does not do that for
  an element of \<open>B\<close> that is itself an array: \<open>objValue.concat(...srcValue)\<close> hands every
  element to \<open>concat\<close> as an argument of its own, and \<open>concat\<close> spreads an argument that is
  an array. So \<open>[0]\<close> merged with \<open>[[1, 2]]\<close> is \<open>[0, 1, 2]\<close>, of length 3, where the claim
  has \<open>[0, [1, 2]]\<close>, of length 2.
\<close>

theorem array_append_flattens:
  "deepConfigMerge (JArr [JNum 0]) (JArr [JArr [JNum 1, JNum 2]]) ''k''
     = Inr (JArr [JNum 0, JNum 1, JNum 2])
   \<and> deepConfigMerge (JArr [JNum 0]) (JArr [JArr [JNum 1, JNum 2]]) ''k''
     \<noteq> Inr (JArr ([JNum 0] @ [JArr [JNum 1, JNum 2]]))
   \<and> length [JNum 0, JNum 1, JNum 2] \<noteq> length [JNum 0] + length [JArr [JNum 1, JNum 2]]"
  by (simp add: deepConfigMerge.simps js_concat_def)

subsection \<open>Objects\<close>

text \<open>
  Claim C3. For a base that is a mapping, every override that is not a mapping is to make
  the merge fail with the error that names the key and the override's type. The guard of
  line 96 is \<open>typeof srcValue !== 'object'\<close>, which \<open>null\<close> and arrays pass: the merge of
  \<open>{a: 1}\<close> with \<open>null\<close> returns \<open>{a: 1}\<close>, and with \<open>[5]\<close> it returns an object that holds
  \<open>5\<close> under the key \<open>0\<close> beside \<open>a\<close>; neither fails.
\<close>

theorem object_merge_accepts:
  "deepConfigMerge (JObj [(''a'', JNum 1)]) JNull ''k'' = Inr (JObj [(''a'', JNum 1)])
   \<and> (case deepConfigMerge (JObj [(''a'', JNum 1)]) (JArr [JNum 5]) ''k'' of
        Inl e \<Rightarrow> False
      | Inr r \<Rightarrow> safeGet (keysIn r) ''a'' = JNum 1 \<and> safeGet (keysIn r) ''0'' = JNum 5)"
  by code_simp

subsection \<open>The prefixed sub-tree\<close>

text \<open>
  Claim C4. When a prefix is supplied, the prefixed sub-tree is the file content walked
  along the prefix, and it is folded in after the unprefixed file content: under a key
  that the sub-tree holds as a scalar, where the defaults and the file root hold scalars
  or nothing and the command line holds nothing, the candidate holds the sub-tree's value.
  For the file \<open>{apps: {x: {v: 1}}, v: 2}\<close> and the prefix \<open>apps.x\<close> the resolved \<open>v\<close> is 1,
  which is the witness.
\<close>

theorem prefix_wins:
  assumes "prefix options = Some p" and "p \<noteq> []"
    and "merged rt options raw = Inr candidate"
    and "\<forall>s\<in>set (sources rt options raw). well_formed s"
    and "safeGet (keysIn (walk (inherited rt) raw (split_dot p))) k = v" and "scalar v"
    and "safeGet (keysIn raw) k = JUndefined \<or> scalar (safeGet (keysIn raw) k)"
    and "safeGet (keysIn (defaults options)) k = JUndefined
           \<or> scalar (safeGet (keysIn (defaults options)) k)"
    and "safeGet (keysIn (parsedCommandLine rt options)) k = JUndefined"
  shows "prefixedRaw rt options raw = walk (inherited rt) raw (split_dot p) \<and> getProp (inherited rt) candidate k = v"
proof -
  have d: "\<forall>s\<in>set (sources rt options raw). distinct (map fst (keysIn s))"
    using assms(4) well_formed_distinct by blast
  have pr: "prefixedRaw rt options raw = walk (inherited rt) raw (split_dot p)"
    using assms(1,2) by (simp add: prefixedRaw_def)
  from assms(5,6) have "walk (inherited rt) raw (split_dot p) \<noteq> JUndefined" "walk (inherited rt) raw (split_dot p) \<noteq> JNull"
    by (auto simp: safeGet_Nil)
  then have nn: "nullish (prefixedRaw rt options raw) (JObj []) = walk (inherited rt) raw (split_dot p)"
    by (simp add: pr nullish_def)
  have src: "sources rt options raw =
      [defaults options, raw, walk (inherited rt) raw (split_dot p), parsedCommandLine rt options]"
    by (simp add: sources_def nn nullish_defaults)
  have "merge_values k JUndefined (map (\<lambda>s. safeGet (keysIn s) k) (sources rt options raw))
          = Inr (last_defined
                  (JUndefined # map (\<lambda>s. safeGet (keysIn s) k) (sources rt options raw)))"
    using assms(5-9) unfolding src by (intro merge_values_scalar) auto
  with merged_key [OF assms(3) d, of k] have "safeGet (keysIn candidate) k =
      last_defined (map (\<lambda>s. safeGet (keysIn s) k) (sources rt options raw))"
    by simp
  also have "\<dots> = v" using assms(5,6,9) unfolding src by (cases v) auto
  finally have own: "safeGet (keysIn candidate) k = v" .
  from merged_candidate_Obj [OF assms(3)] obtain m where c: "candidate = JObj m" by blast
  from assms(6) have "v \<noteq> JUndefined" by auto
  with own have "getProp (inherited rt) candidate k = v"
    by (simp add: c getProp_Obj_defined)
  with pr show ?thesis by simp
qed

theorem prefix_wins_witness:
  "snd (rawData shared_runtime (prefix_options ''apps.x'')) = Inr shared_json
   \<and> merged shared_runtime (prefix_options ''apps.x'') shared_json
       = Inr (JObj [(''apps'', JObj [(''x'', JObj [(''v'', JNum 1)])]), (''v'', JNum 1),
                    (''_'', JArr [])])
   \<and> prefixedRaw shared_runtime (prefix_options ''apps.x'') shared_json = JObj [(''v'', JNum 1)]
   \<and> getProp (inherited shared_runtime) (JObj [(''apps'', JObj [(''x'', JObj [(''v'', JNum 1)])]), (''v'', JNum 1),
                    (''_'', JArr [])]) ''v'' = JNum 1"
proof -
  let ?o = "prefix_options ''apps.x''"
  let ?c = "JObj [(''apps'', JObj [(''x'', JObj [(''v'', JNum 1)])]), (''v'', JNum 1),
                  (''_'', JArr [])]"
  have r: "snd (rawData shared_runtime ?o) = Inr shared_json" by code_simp
  have m: "merged shared_runtime ?o shared_json = Inr ?c" by code_simp
  have w: "walk (inherited shared_runtime) shared_json (split_dot ''apps.x'') = JObj [(''v'', JNum 1)]" by code_simp
  have src: "sources shared_runtime ?o shared_json =
      [JObj [], shared_json, JObj [(''v'', JNum 1)], JObj [(''_'', JArr [])]]"
    by code_simp
  have d: "\<forall>s\<in>set (sources shared_runtime ?o shared_json). well_formed s"
    unfolding src by (simp add: shared_json_def well_formed_def)
  have "prefixedRaw shared_runtime ?o shared_json = walk (inherited shared_runtime) shared_json (split_dot ''apps.x'')
        \<and> getProp (inherited shared_runtime) ?c ''v'' = JNum 1"
  proof (rule prefix_wins [OF _ _ m d])
    show "prefix ?o = Some ''apps.x''" by (simp add: prefix_options_def)
    show "''apps.x'' \<noteq> []" by simp
    show "safeGet (keysIn (walk (inherited shared_runtime) shared_json (split_dot ''apps.x''))) ''v'' = JNum 1"
      unfolding w by (simp add: safeGet_def)
    show "scalar (JNum 1)" by simp
    show "safeGet (keysIn shared_json) ''v'' = JUndefined
            \<or> scalar (safeGet (keysIn shared_json) ''v'')"
      by (simp add: shared_json_def safeGet_def)
    show "safeGet (keysIn (defaults ?o)) ''v'' = JUndefined
            \<or> scalar (safeGet (keysIn (defaults ?o)) ''v'')"
      by (simp add: defaults_def prefix_options_def nullish_def safeGet_Nil)
    show "safeGet (keysIn (parsedCommandLine shared_runtime ?o)) ''v'' = JUndefined"
      by (simp add: parsedCommandLine_def options_commandLine_def prefix_options_def
          shared_runtime_def safeGet_def)
  qed
  with r m w show ?thesis by simp
qed




subsection \<open>The JSON file\<close>

text \<open>
  Claim C6. The path of the JSON file is the first of these that is there and truthy: the
  command line's \<open>configJsonFile\<close>, the environment variable \<open>CONFIG_JSON_FILE\<close>, the
  \<open>jsonFile\<close> option when it is a string, and \<open>./config.json\<close> otherwise. When the
  \<open>jsonFile\<close> option is \<open>false\<close> the file system is not touched at all and the file
  source is the empty mapping, whatever the command line and the environment say; in
  every case the only path the file system is asked about is the resolved one.
\<close>

theorem json_file_resolution:
  assumes "c = getProp (inherited rt) (parsedCommandLine rt options) ''configJsonFile''"
  shows "(truthy c \<longrightarrow> configJsonFile rt options = c)
   \<and> (\<not> truthy c \<longrightarrow> CONFIG_JSON_FILE rt = Some e \<longrightarrow> e \<noteq> [] \<longrightarrow>
        configJsonFile rt options = JStr e)
   \<and> (\<not> truthy c \<longrightarrow> CONFIG_JSON_FILE rt = None \<or> CONFIG_JSON_FILE rt = Some [] \<longrightarrow>
        jsonFile options = Some (JStr f) \<longrightarrow> f \<noteq> [] \<longrightarrow>
        configJsonFile rt options = JStr f)
   \<and> (\<not> truthy c \<longrightarrow> CONFIG_JSON_FILE rt = None \<or> CONFIG_JSON_FILE rt = Some [] \<longrightarrow>
        (\<forall>g. g \<noteq> [] \<longrightarrow> jsonFile options \<noteq> Some (JStr g)) \<longrightarrow>
        configJsonFile rt options = JStr ''./config.json'')
   \<and> (jsonFile options = Some (JBool False) \<longrightarrow> rawData rt options = ([], Inr (JObj [])))
   \<and> set (fst (rawData rt options))
        \<subseteq> {ExistsSync (configJsonFile rt options), ReadFileSync (configJsonFile rt options)}"
proof (intro conjI impI)
  assume "truthy c"
  then show "configJsonFile rt options = c"
    by (simp add: configJsonFile_def js_or_def assms)
next
  assume "\<not> truthy c" "CONFIG_JSON_FILE rt = Some e" "e \<noteq> []"
  then show "configJsonFile rt options = JStr e"
    by (simp add: configJsonFile_def js_or_def assms env_value_def)
next
  assume "\<not> truthy c" "CONFIG_JSON_FILE rt = None \<or> CONFIG_JSON_FILE rt = Some []"
    "jsonFile options = Some (JStr f)" "f \<noteq> []"
  then show "configJsonFile rt options = JStr f"
    by (auto simp: configJsonFile_def js_or_def assms env_value_def options_jsonFile_def)
next
  assume n: "\<not> truthy c" and e: "CONFIG_JSON_FILE rt = None \<or> CONFIG_JSON_FILE rt = Some []"
    and j: "\<forall>g. g \<noteq> [] \<longrightarrow> jsonFile options \<noteq> Some (JStr g)"
  have "\<not> truthy (if js_typeof (options_jsonFile options) = ''string''
                   then options_jsonFile options else JNull)"
  proof (cases "options_jsonFile options")
    case (JStr g)
    with j have "g = []" by (auto simp: options_jsonFile_def split: option.splits)
    with JStr show ?thesis by simp
  qed simp_all
  with n e show "configJsonFile rt options = JStr ''./config.json''"
    by (auto simp: configJsonFile_def js_or_def assms env_value_def)
next
  assume "jsonFile options = Some (JBool False)"
  then show "rawData rt options = ([], Inr (JObj []))"
    by (simp add: rawData_def options_jsonFile_def)
next
  show "set (fst (rawData rt options))
        \<subseteq> {ExistsSync (configJsonFile rt options), ReadFileSync (configJsonFile rt options)}"
    by (simp add: rawData_def Let_def)
qed

theorem json_file_resolution_witness:
  "configJsonFile (located_runtime (JObj [(''_'', JArr []), (''configJsonFile'', JStr ''cli.json'')])
        (Some ''env.json'')) (file_options (Some (JStr ''opt.json''))) = JStr ''cli.json''
   \<and> configJsonFile (located_runtime (JObj [(''_'', JArr [])]) (Some ''env.json''))
        (file_options (Some (JStr ''opt.json''))) = JStr ''env.json''
   \<and> configJsonFile (located_runtime (JObj [(''_'', JArr [])]) None)
        (file_options (Some (JStr ''opt.json''))) = JStr ''opt.json''
   \<and> configJsonFile (located_runtime (JObj [(''_'', JArr [])]) None)
        (file_options None) = JStr ''./config.json''
   \<and> rawData (located_runtime (JObj [(''_'', JArr []), (''configJsonFile'', JStr ''cli.json'')])
        (Some ''env.json'')) (file_options (Some (JBool False))) = ([], Inr (JObj []))"
proof -
  let ?cli = "JObj [(''_'', JArr []), (''configJsonFile'', JStr ''cli.json'')]"
  let ?none = "JObj [(''_'', JArr [])]"
  have c1: "JStr ''cli.json'' =
      getProp (inherited (located_runtime ?cli (Some ''env.json'')))
        (parsedCommandLine (located_runtime ?cli (Some ''env.json'')) (file_options j))
        ''configJsonFile''" for j
    by (simp add: parsedCommandLine_def options_commandLine_def located_runtime_def
        file_options_def getProp_def)
  have c2: "JUndefined =
      getProp (inherited (located_runtime ?none env))
        (parsedCommandLine (located_runtime ?none env) (file_options j))
        ''configJsonFile''" for env j
    by (simp add: parsedCommandLine_def options_commandLine_def located_runtime_def
        file_options_def getProp_def example_inherited_def object_methods_def)
  have o: "jsonFile (file_options j) = j" for j
    by (simp add: file_options_def)
  have e: "CONFIG_JSON_FILE (located_runtime cl env) = env" for cl env
    by (simp add: located_runtime_def)
  have "configJsonFile (located_runtime ?cli (Some ''env.json''))
          (file_options (Some (JStr ''opt.json''))) = JStr ''cli.json''"
    using json_file_resolution [OF c1, of "Some (JStr ''opt.json'')" "[]" "[]"]
    by simp
  moreover have "configJsonFile (located_runtime ?none (Some ''env.json''))
          (file_options (Some (JStr ''opt.json''))) = JStr ''env.json''"
    using json_file_resolution [OF c2, of "Some ''env.json''" "Some (JStr ''opt.json'')"
        "''env.json''" "[]"]
    by (simp add: e)
  moreover have "configJsonFile (located_runtime ?none None)
          (file_options (Some (JStr ''opt.json''))) = JStr ''opt.json''"
    using json_file_resolution [OF c2, of None "Some (JStr ''opt.json'')" "[]" "''opt.json''"]
    by (simp add: e o)
  moreover have "configJsonFile (located_runtime ?none None) (file_options None)
          = JStr ''./config.json''"
    using json_file_resolution [OF c2, of None None "[]" "[]"]
    by (simp add: e o)
  moreover have "rawData (located_runtime ?cli (Some ''env.json''))
          (file_options (Some (JBool False))) = ([], Inr (JObj []))"
    using json_file_resolution [OF c1, of "Some (JBool False)" "[]" "[]"]
    by (simp add: o)
  ultimately show ?thesis by blast
qed

text \<open>
  Claim C7, as amended. With the JSON file in use and no \<open>--help\<close> on the command line:
  when the file at the resolved path exists and \<open>JSON.parse\<close> rejects its content, the
  call fails with that \<open>SyntaxError\<close>; when no file exists at the resolved path, no error
  is raised for it, the file source is the empty mapping and the call goes on with the
  four sources as they then are: the defaults, the empty mapping, the prefixed sub-tree of
  the empty mapping and the command line. Without a prefix, or with one that finds
  nothing, that is the merge of the defaults and the command line alone.
\<close>

theorem json_file_errors:
  assumes "truthy (options_jsonFile options)"
    and "\<not> truthy (getProp (inherited rt) (parsedCommandLine rt options) ''help'')"
  shows "(configJsonFile rt options = JStr p \<longrightarrow> files rt p = Some content \<longrightarrow>
            JSON_parse rt content = None \<longrightarrow>
            snd (rawData rt options) = Inl SyntaxError
            \<and> getConfigGetter rt schema_parse options = Inl SyntaxError)
       \<and> (\<not> existsSync rt (configJsonFile rt options) \<longrightarrow>
            snd (rawData rt options) = Inr (JObj [])
            \<and> getConfigGetter rt schema_parse options =
                (case merged rt options (JObj []) of
                   Inl e \<Rightarrow> Inl e
                 | Inr candidate \<Rightarrow>
                     (case schema_parse candidate of
                        Inl e \<Rightarrow> Inl e
                      | Inr data \<Rightarrow>
                          if truthy (getProp (inherited rt) (parsedCommandLine rt options)
                                       ''printConfig'')
                          then Inr (Exited 0) else Inr (Getter data)))
            \<and> sources rt options (JObj []) =
                [defaults options, JObj [], nullish (prefixedRaw rt options (JObj [])) (JObj []),
                 parsedCommandLine rt options]
            \<and> (prefix options = None \<or> prefixedRaw rt options (JObj []) = JUndefined \<longrightarrow>
                 merged rt options (JObj []) =
                   (case mergeWith deepConfigMerge []
                           [defaults options, parsedCommandLine rt options] of
                      Inl e \<Rightarrow> Inl e | Inr object \<Rightarrow> Inr (JObj object))))"
proof (intro conjI impI)
  assume a: "configJsonFile rt options = JStr p" "files rt p = Some content"
    "JSON_parse rt content = None"
  then show r: "snd (rawData rt options) = Inl SyntaxError"
    using assms(1) by (simp add: rawData_def Let_def existsSync_def readFileSync_def)
  then show "getConfigGetter rt schema_parse options = Inl SyntaxError"
    using assms(2) by (simp add: getConfigGetter_def)
next
  assume n: "\<not> existsSync rt (configJsonFile rt options)"
  then show r: "snd (rawData rt options) = Inr (JObj [])"
    using assms(1) by (simp add: rawData_def Let_def)
  show "getConfigGetter rt schema_parse options =
                (case merged rt options (JObj []) of
                   Inl e \<Rightarrow> Inl e
                 | Inr candidate \<Rightarrow>
                     (case schema_parse candidate of
                        Inl e \<Rightarrow> Inl e
                      | Inr data \<Rightarrow>
                          if truthy (getProp (inherited rt) (parsedCommandLine rt options)
                                       ''printConfig'')
                          then Inr (Exited 0) else Inr (Getter data)))"
    using assms(2) by (simp add: getConfigGetter_def r)
next
  show "sources rt options (JObj []) =
                [defaults options, JObj [], nullish (prefixedRaw rt options (JObj [])) (JObj []),
                 parsedCommandLine rt options]"
    by (simp add: sources_def nullish_defaults)
next
  assume "prefix options = None \<or> prefixedRaw rt options (JObj []) = JUndefined"
  then have "prefixedRaw rt options (JObj []) = JUndefined
      \<or> prefixedRaw rt options (JObj []) = JNull \<or> prefixedRaw rt options (JObj []) = JStr []"
    by (auto simp: prefixedRaw_def)
  then have "merged rt options (JObj []) =
      (case mergeWith deepConfigMerge [] [defaults options, JObj [], parsedCommandLine rt options] of
         Inl e \<Rightarrow> Inl e | Inr object \<Rightarrow> Inr (JObj object))"
    by (rule merged_without_prefix)
  then show "merged rt options (JObj []) =
                   (case mergeWith deepConfigMerge []
                           [defaults options, parsedCommandLine rt options] of
                      Inl e \<Rightarrow> Inl e | Inr object \<Rightarrow> Inr (JObj object))"
    by (simp only: mergeWith_without_file)
qed

theorem json_file_errors_witness:
  "getConfigGetter (located_runtime (JObj [(''_'', JArr [])]) None) Inr
      (file_options (Some (JStr ''opt.json''))) = Inl SyntaxError
   \<and> getConfigGetter (located_runtime (JObj [(''_'', JArr [])]) (Some ''missing.json'')) Inr
        (file_options None) = Inr (Getter (JObj [(''_'', JArr [])]))"
proof -
  let ?rt = "located_runtime (JObj [(''_'', JArr [])]) None"
  let ?rt2 = "located_runtime (JObj [(''_'', JArr [])]) (Some ''missing.json'')"
  have t: "truthy (options_jsonFile (file_options (Some (JStr ''opt.json''))))"
    by (simp add: options_jsonFile_def file_options_def)
  have t2: "truthy (options_jsonFile (file_options None))"
    by (simp add: options_jsonFile_def file_options_def)
  have h: "\<not> truthy (getProp (inherited ?rt)
                         (parsedCommandLine ?rt (file_options (Some (JStr ''opt.json''))))
                         ''help'')"
    by code_simp
  have h2: "\<not> truthy (getProp (inherited ?rt2) (parsedCommandLine ?rt2 (file_options None))
                          ''help'')"
    by code_simp
  have p: "configJsonFile ?rt (file_options (Some (JStr ''opt.json''))) = JStr ''opt.json''"
    by code_simp
  have f: "files ?rt ''opt.json'' = Some ''opt.json''" by (simp add: located_runtime_def)
  have j: "JSON_parse ?rt ''opt.json'' = None" by (simp add: located_runtime_def)
  have "getConfigGetter ?rt Inr (file_options (Some (JStr ''opt.json''))) = Inl SyntaxError"
    using json_file_errors [of "file_options (Some (JStr ''opt.json''))" ?rt "''opt.json''"
        "''opt.json''" Inr, OF t h] p f j
    by simp
  moreover
  have e: "\<not> existsSync ?rt2 (configJsonFile ?rt2 (file_options None))" by code_simp
  have np: "prefix (file_options None) = None" by (simp add: file_options_def)
  have m: "mergeWith deepConfigMerge []
             [defaults (file_options None), parsedCommandLine ?rt2 (file_options None)]
           = Inr [(''_'', JArr [])]"
    by code_simp
  have pc: "\<not> truthy (getProp (inherited ?rt2) (parsedCommandLine ?rt2 (file_options None))
                          ''printConfig'')"
    by code_simp
  have "getConfigGetter ?rt2 Inr (file_options None) = Inr (Getter (JObj [(''_'', JArr [])]))"
  proof -
    note t = json_file_errors [of "file_options None" ?rt2 "[]" "[]" Inr, OF t2 h2]
    from t e np have "merged ?rt2 (file_options None) (JObj []) =
                   (case mergeWith deepConfigMerge []
                           [defaults (file_options None),
                            parsedCommandLine ?rt2 (file_options None)] of
                      Inl e \<Rightarrow> Inl e | Inr object \<Rightarrow> Inr (JObj object))"
      by blast
    then have mm: "merged ?rt2 (file_options None) (JObj []) = Inr (JObj [(''_'', JArr [])])"
      by (simp only: m sum.case)
    from t e have "getConfigGetter ?rt2 Inr (file_options None) =
                (case merged ?rt2 (file_options None) (JObj []) of
                   Inl e \<Rightarrow> Inl e
                 | Inr candidate \<Rightarrow>
                     (case Inr candidate of
                        Inl e \<Rightarrow> Inl e
                      | Inr data \<Rightarrow>
                          if truthy (getProp (inherited ?rt2)
                                       (parsedCommandLine ?rt2 (file_options None))
                                       ''printConfig'')
                          then Inr (Exited 0) else Inr (Getter data)))"
      by blast
    then show ?thesis using pc by (simp add: mm)
  qed
  ultimately show ?thesis by blast
qed

text \<open>
  The claim as it was stated fails when \<open>--help\<close> is given: lines 134-141 print the usage
  and exit with status 0 before the file is looked at, so a file that does not parse
  raises nothing.
\<close>

theorem json_file_errors_counterexample:
  "truthy (options_jsonFile (file_options (Some (JStr ''opt.json''))))
   \<and> configJsonFile (located_runtime help_output None) (file_options (Some (JStr ''opt.json'')))
       = JStr ''opt.json''
   \<and> files (located_runtime help_output None) ''opt.json'' = Some ''opt.json''
   \<and> JSON_parse (located_runtime help_output None) ''opt.json'' = None
   \<and> getConfigGetter (located_runtime help_output None) Inr
        (file_options (Some (JStr ''opt.json''))) = Inr (Exited 0)
   \<and> getConfigGetter (located_runtime help_output None) Inr
        (file_options (Some (JStr ''opt.json''))) \<noteq> Inl SyntaxError"
  by code_simp

subsection \<open>The accessor\<close>

text \<open>
  Claim C8. The accessor splits the key path on \<open>.\<close> and walks the validated
  configuration one segment at a time. A value that is there (not \<open>undefined\<close>) is
  returned; when it is not there, a fallback that was supplied is returned, and without
  a fallback the call fails with the error that names the key path. (A parameter left
  out is \<open>undefined\<close> in the function, so a fallback that was supplied is one that is not
  \<open>undefined\<close>; claim C9 is about that.)
\<close>

theorem getConfig_cases:
  "(walk (inherited rt) data (split_dot key) \<noteq> JUndefined \<longrightarrow>
      call_getConfig rt data key fallback = Inr (walk (inherited rt) data (split_dot key)))
   \<and> (walk (inherited rt) data (split_dot key) = JUndefined \<longrightarrow> d \<noteq> JUndefined \<longrightarrow>
        call_getConfig rt data key (Some d) = Inr d)
   \<and> (walk (inherited rt) data (split_dot key) = JUndefined \<longrightarrow>
        call_getConfig rt data key None
          = Inl (Error (''The config variable '' @ [CHR 0x27] @ key @ [CHR 0x27]
                        @ '' is not defined.'')))
   \<and> join_on (CHR ''.'') (split_dot key) = key
   \<and> (\<forall>seg\<in>set (split_dot key). CHR ''.'' \<notin> set seg)
   \<and> walk (inherited rt) data [] = data
   \<and> (\<forall>k ks. walk (inherited rt) data (k # ks) = walk (inherited rt) (getProp (inherited rt) data k) ks)"
proof (intro conjI impI allI ballI)
  assume "walk (inherited rt) data (split_dot key) \<noteq> JUndefined"
  then show "call_getConfig rt data key fallback = Inr (walk (inherited rt) data (split_dot key))"
    by (simp add: call_getConfig_def getConfig_def Let_def)
next
  assume "walk (inherited rt) data (split_dot key) = JUndefined" and "d \<noteq> JUndefined"
  then show "call_getConfig rt data key (Some d) = Inr d"
    by (simp add: call_getConfig_def getConfig_def)
next
  assume "walk (inherited rt) data (split_dot key) = JUndefined"
  then show "call_getConfig rt data key None
          = Inl (Error (''The config variable '' @ [CHR 0x27] @ key @ [CHR 0x27]
                        @ '' is not defined.''))"
    by (simp add: call_getConfig_def getConfig_def undefined_key_error_def)
next
  show "join_on (CHR ''.'') (split_dot key) = key"
    by (simp add: split_dot_def join_split_on)
next
  fix seg assume "seg \<in> set (split_dot key)"
  then show "CHR ''.'' \<notin> set seg"
    unfolding split_dot_def by (rule split_on_no_sep)
next
  show "walk (inherited rt) data [] = data" by (rule walk_Nil)
next
  fix k ks show "walk (inherited rt) data (k # ks) = walk (inherited rt) (getProp (inherited rt) data k) ks" by (rule walk_Cons)
qed

theorem getConfig_cases_witness:
  "call_getConfig shared_runtime validated_example ''someValue'' None = Inr (JStr ''d'')
   \<and> call_getConfig shared_runtime validated_example ''someObject.nested'' None = Inr (JBool False)
   \<and> call_getConfig shared_runtime validated_example ''missing.key'' (Some (JNum 7)) = Inr (JNum 7)
   \<and> call_getConfig shared_runtime validated_example ''missing.key'' None
       = Inl (Error (''The config variable '' @ [CHR 0x27] @ ''missing.key'' @ [CHR 0x27]
                     @ '' is not defined.''))"
proof -
  have w1: "walk (inherited shared_runtime) validated_example (split_dot ''someValue'') = JStr ''d''" by code_simp
  have w2: "walk (inherited shared_runtime) validated_example (split_dot ''someObject.nested'') = JBool False"
    by code_simp
  have w3: "walk (inherited shared_runtime) validated_example (split_dot ''missing.key'') = JUndefined" by code_simp
  show ?thesis
    using getConfig_cases [of shared_runtime validated_example "''someValue''" None JNull]
      getConfig_cases [of shared_runtime validated_example "''someObject.nested''" None JNull]
      getConfig_cases [of shared_runtime validated_example "''missing.key''" None "JNum 7"]
    by (simp add: w1 w2 w3)
qed

text \<open>
  Claim C9. Presence is a comparison with \<open>undefined\<close> and nothing else: a stored
  \<open>null\<close> is returned as it is, with or without a fallback; passing \<open>undefined\<close> as the
  fallback is the same call as passing none, and fails with the undefined-key error when
  the path is absent; and the accessor fails exactly when both the value and the
  fallback are \<open>undefined\<close>.
\<close>

theorem getConfig_undefined:
  "(walk (inherited rt) data (split_dot key) = JNull \<longrightarrow> call_getConfig rt data key fallback = Inr JNull)
   \<and> call_getConfig rt data key (Some JUndefined) = call_getConfig rt data key None
   \<and> (walk (inherited rt) data (split_dot key) = JUndefined \<longrightarrow>
        call_getConfig rt data key (Some JUndefined) = Inl (undefined_key_error key))
   \<and> ((\<exists>e. call_getConfig rt data key fallback = Inl e) =
        (walk (inherited rt) data (split_dot key) = JUndefined
         \<and> (fallback = None \<or> fallback = Some JUndefined)))"
  by (cases fallback) (auto simp: call_getConfig_def getConfig_def Let_def)

theorem getConfig_undefined_witness:
  "call_getConfig shared_runtime validated_example ''someObject.limit'' (Some (JNum 7)) = Inr JNull
   \<and> call_getConfig shared_runtime validated_example ''someObject.limit'' None = Inr JNull
   \<and> call_getConfig shared_runtime validated_example ''missing.key'' (Some JUndefined)
       = Inl (undefined_key_error ''missing.key'')
   \<and> call_getConfig shared_runtime validated_example ''missing.key'' (Some JUndefined)
       = call_getConfig shared_runtime validated_example ''missing.key'' None"
proof -
  have w1: "walk (inherited shared_runtime) validated_example (split_dot ''someObject.limit'') = JNull" by code_simp
  have w3: "walk (inherited shared_runtime) validated_example (split_dot ''missing.key'') = JUndefined" by code_simp
  show ?thesis
    using getConfig_undefined [of shared_runtime validated_example "''someObject.limit''" "Some (JNum 7)"]
      getConfig_undefined [of shared_runtime validated_example "''someObject.limit''" None]
      getConfig_undefined [of shared_runtime validated_example "''missing.key''" None]
    by (auto simp: w1 w3)
qed

subsection \<open>The command line as a source\<close>

text \<open>
  Claim C10. With command-line processing enabled, the fourth source of the merge is the
  tokenizer's whole answer. Every key it defines is defined in the candidate, and a key
  that no other source holds has the tokenizer's value there; the candidate is what the
  schema is given. So the positionals under \<open>_\<close> and the \<open>configJsonFile\<close> of
  \<open>--config-json-file\<close> reach the schema, as in the witness.
\<close>

theorem command_line_source:
  assumes "options_commandLine options"
    and "merged rt options raw = Inr candidate"
    and "\<forall>s\<in>set (sources rt options raw). well_formed s"
  shows "sources rt options raw ! 3 = yargsParser rt (drop 2 (argv rt))
    \<and> (\<forall>k. safeGet (keysIn (yargsParser rt (drop 2 (argv rt)))) k \<noteq> JUndefined \<longrightarrow>
           safeGet (keysIn candidate) k \<noteq> JUndefined
           \<and> getProp (inherited rt) candidate k \<noteq> JUndefined)
    \<and> (\<forall>k. (\<forall>s\<in>set (take 3 (sources rt options raw)). safeGet (keysIn s) k = JUndefined) \<longrightarrow>
           safeGet (keysIn candidate) k = safeGet (keysIn (yargsParser rt (drop 2 (argv rt)))) k
           \<and> (safeGet (keysIn (yargsParser rt (drop 2 (argv rt)))) k \<noteq> JUndefined \<longrightarrow>
                getProp (inherited rt) candidate k
                  = safeGet (keysIn (yargsParser rt (drop 2 (argv rt)))) k))
    \<and> (snd (rawData rt options) = Inr raw \<longrightarrow>
        \<not> truthy (getProp (inherited rt) (parsedCommandLine rt options) ''help'') \<longrightarrow>
          getConfigGetter rt schema_parse options =
            (case schema_parse candidate of
               Inl e \<Rightarrow> Inl e
             | Inr data \<Rightarrow>
                 if truthy (getProp (inherited rt) (parsedCommandLine rt options) ''printConfig'')
                 then Inr (Exited 0) else Inr (Getter data)))"
proof -
  let ?cl = "yargsParser rt (drop 2 (argv rt))"
  let ?d = "nullish (defaults options) (JObj [])"
  let ?p = "nullish (prefixedRaw rt options raw) (JObj [])"
  have d: "\<forall>s\<in>set (sources rt options raw). distinct (map fst (keysIn s))"
    using assms(3) well_formed_distinct by blast
  have cl: "parsedCommandLine rt options = ?cl"
    using assms(1) by (simp add: parsedCommandLine_def)
  have src: "sources rt options raw = [?d, raw, ?p] @ [?cl]"
    by (simp add: sources_def cl)
  have key: "\<exists>y. merge_values k JUndefined (map (\<lambda>s. safeGet (keysIn s) k) [?d, raw, ?p]) = Inr y
               \<and> deepConfigMerge y (safeGet (keysIn ?cl) k) k = Inr (safeGet (keysIn candidate) k)" for k
    using merged_key [OF assms(2) d, of k] unfolding src map_append merge_values_append
    by (auto split: sum.splits)
  from merged_candidate_Obj [OF assms(2)] obtain m where m: "candidate = JObj m" by blast
  have own: "getProp (inherited rt) candidate k = safeGet (keysIn candidate) k"
    if "safeGet (keysIn candidate) k \<noteq> JUndefined" for k
    using that by (simp add: m getProp_Obj_defined)
  show ?thesis
  proof (intro conjI allI impI)
    show "sources rt options raw ! 3 = ?cl" by (simp add: src)
  next
    fix k assume "safeGet (keysIn ?cl) k \<noteq> JUndefined"
    with key [of k] show "safeGet (keysIn candidate) k \<noteq> JUndefined"
      using deepConfigMerge_defined by blast
  next
    fix k assume "safeGet (keysIn ?cl) k \<noteq> JUndefined"
    with key [of k] have "safeGet (keysIn candidate) k \<noteq> JUndefined"
      using deepConfigMerge_defined by blast
    then show "getProp (inherited rt) candidate k \<noteq> JUndefined" by (simp add: own)
  next
    fix k assume "\<forall>s\<in>set (take 3 (sources rt options raw)). safeGet (keysIn s) k = JUndefined"
    then have "\<forall>v\<in>set (map (\<lambda>s. safeGet (keysIn s) k) [?d, raw, ?p]). v = JUndefined"
      by (simp add: src)
    then have "merge_values k JUndefined (map (\<lambda>s. safeGet (keysIn s) k) [?d, raw, ?p])
                 = Inr JUndefined"
      by (rule merge_values_Undefined)
    with key [of k] show "safeGet (keysIn candidate) k = safeGet (keysIn ?cl) k"
      by (auto simp: deepConfigMerge_Undefined_left)
  next
    fix k assume "\<forall>s\<in>set (take 3 (sources rt options raw)). safeGet (keysIn s) k = JUndefined"
      and def: "safeGet (keysIn ?cl) k \<noteq> JUndefined"
    then have "\<forall>v\<in>set (map (\<lambda>s. safeGet (keysIn s) k) [?d, raw, ?p]). v = JUndefined"
      by (simp add: src)
    then have "merge_values k JUndefined (map (\<lambda>s. safeGet (keysIn s) k) [?d, raw, ?p])
                 = Inr JUndefined"
      by (rule merge_values_Undefined)
    with key [of k] have e: "safeGet (keysIn candidate) k = safeGet (keysIn ?cl) k"
      by (auto simp: deepConfigMerge_Undefined_left)
    with def show "getProp (inherited rt) candidate k = safeGet (keysIn ?cl) k"
      by (simp add: own)
  next
    assume "snd (rawData rt options) = Inr raw"
      and "\<not> truthy (getProp (inherited rt) (parsedCommandLine rt options) ''help'')"
    then show "getConfigGetter rt schema_parse options =
            (case schema_parse candidate of
               Inl e \<Rightarrow> Inl e
             | Inr data \<Rightarrow>
                 if truthy (getProp (inherited rt) (parsedCommandLine rt options) ''printConfig'')
                 then Inr (Exited 0) else Inr (Getter data))"
      by (simp add: getConfigGetter_def assms(2))
  qed
qed

theorem command_line_source_witness:
  "merged cli_runtime cli_options (JObj []) = Inr cli_candidate
   \<and> getProp (inherited cli_runtime) cli_candidate ''_'' = JArr [JStr ''extra'']
   \<and> getProp (inherited cli_runtime) cli_candidate ''configJsonFile'' = JStr ''c.json''
   \<and> getConfigGetter cli_runtime Inr cli_options = Inr (Getter cli_candidate)"
proof -
  let ?inh = "inherited cli_runtime"
  have c: "options_commandLine cli_options"
    by (simp add: options_commandLine_def cli_options_def)
  have m: "merged cli_runtime cli_options (JObj []) = Inr cli_candidate" by code_simp
  have y: "yargsParser cli_runtime (drop 2 (argv cli_runtime)) = cli_output"
    by (simp add: cli_runtime_def)
  have src: "sources cli_runtime cli_options (JObj []) =
      [JObj [(''port'', JNum 80)], JObj [], JObj [], cli_output]"
    by code_simp
  have d: "\<forall>s\<in>set (sources cli_runtime cli_options (JObj [])). well_formed s"
    unfolding src by (simp add: cli_output_def well_formed_def)
  have r: "snd (rawData cli_runtime cli_options) = Inr (JObj [])" by code_simp
  have h: "\<not> truthy (getProp ?inh (parsedCommandLine cli_runtime cli_options) ''help'')"
    by code_simp
  have pc: "\<not> truthy (getProp ?inh (parsedCommandLine cli_runtime cli_options) ''printConfig'')"
    by code_simp
  note t = command_line_source [OF c m d, of Inr]
  have u: "\<forall>s\<in>set (take 3 (sources cli_runtime cli_options (JObj []))).
             safeGet (keysIn s) k = JUndefined" if "k \<noteq> ''port''" for k
    using that unfolding src by (simp add: safeGet_def)
  from t have "\<forall>k. (\<forall>s\<in>set (take 3 (sources cli_runtime cli_options (JObj []))).
                    safeGet (keysIn s) k = JUndefined) \<longrightarrow>
           safeGet (keysIn (yargsParser cli_runtime (drop 2 (argv cli_runtime)))) k \<noteq> JUndefined \<longrightarrow>
           getProp ?inh cli_candidate k
             = safeGet (keysIn (yargsParser cli_runtime (drop 2 (argv cli_runtime)))) k"
    by blast
  then have g: "getProp ?inh cli_candidate k = safeGet (keysIn cli_output) k"
    if "k \<noteq> ''port''" and "safeGet (keysIn cli_output) k \<noteq> JUndefined" for k
    using u [OF that(1)] that(2) unfolding y by blast
  have "getProp ?inh cli_candidate ''_'' = JArr [JStr ''extra'']"
    using g [of "''_''"] by (simp add: cli_output_def safeGet_def)
  moreover have "getProp ?inh cli_candidate ''configJsonFile'' = JStr ''c.json''"
    using g [of "''configJsonFile''"] by (simp add: cli_output_def safeGet_def)
  moreover have "getConfigGetter cli_runtime Inr cli_options = Inr (Getter cli_candidate)"
    using t r h pc by simp
  ultimately show ?thesis using m by blast
qed

end
